theory Spec2Isabelle
  imports Complex_Main "HOL-Library.Multiset"
begin

section \<open>Data model of the trading simulation (test.py, init\_users.py)\<close>

text \<open>
  The scripts drive an external ledger through the \<^verbatim>\<open>peer\<close> command and draw from
  Python's \<^verbatim>\<open>random\<close> module. Both are inputs of the model: every random draw and
  every result of \<^verbatim>\<open>subprocess.run\<close> is read from an environment record, indexed by
  the iteration that asks for it, so that a run of the script is a function of its
  environment. Everything the script writes (chaincode commands, printed lines) is
  appended to a list of events.
\<close>

type_synonym user = string

datatype side = BUY | SELL

text \<open>The dictionary \<^verbatim>\<open>{"order_id": ..., "user": ..., "type": ...}\<close>.\<close>

record order =
  order_id :: string
  user :: user
  order_type :: side

text \<open>What \<^verbatim>\<open>subprocess.run(..., capture_output=True, text=True)\<close> returns.\<close>

record proc =
  returncode :: int
  stdout :: string
  stderr :: string

text \<open>The value stored in a row of \<^verbatim>\<open>rep_history\<close>: an integer, or the raw text when
  \<^verbatim>\<open>int(...)\<close> raised ValueError.\<close>

datatype rep_value = IntValue int | StrValue string

text \<open>The lines the scripts print, one constructor per \<^verbatim>\<open>print\<close> statement, carrying
  the values its f-string interpolates.\<close>

datatype message =
    Initialized nat
  | RoundHeader nat
  | CreateOrderFailed string string
  | OrdersPlaced nat int
  | OrdersMatched nat
  | IssueTokenDefaultFailed string string string
  | IssueTokenSuccessFailed string string string
  | RoundComplete nat nat nat
  | SimulationCompleted
  | CreateParticipantFailed user string
  | Registered user int int

text \<open>An event is a chaincode command (with its \<^verbatim>\<open>Args\<close> list) or a printed line.\<close>

datatype event =
    Invoke "string list"
  | Query "string list"
  | Print message

datatype error = KeyError user

text \<open>One row of \<^verbatim>\<open>round_stats\<close>.\<close>

record round_stat =
  stat_round :: nat
  stat_orders :: nat
  stat_matched :: nat
  stat_success :: nat
  stat_defaults :: nat
  stat_excluded_users :: int

text \<open>The module-level variables of test.py that the rounds update, and the output.\<close>

record state =
  reputation :: "user \<rightharpoonup> int"
  rep_history :: "(nat \<times> user \<times> rep_value) list"
  default_records :: "(nat \<times> user) list"
  round_stats :: "round_stat list"
  out :: "event list"

text \<open>
  The environment of one round. An index \<open>k\<close> is the position of the user in
  \<^verbatim>\<open>users\<close>, an index \<open>i\<close> the position of the matched pair.
  \<open>str_strip\<close> and \<open>int_parse\<close> stand for the builtins \<^verbatim>\<open>str.strip\<close> and \<^verbatim>\<open>int\<close>
  (\<open>None\<close> when \<^verbatim>\<open>int\<close> raises ValueError).
\<close>

record round_env =
  choice_side :: "nat \<Rightarrow> side"
  randint_energy :: "nat \<Rightarrow> int"
  randint_price :: "nat \<Rightarrow> int"
  run_create_order :: "nat \<Rightarrow> proc"
  randbelow_buy :: "nat \<Rightarrow> nat"
  randbelow_sell :: "nat \<Rightarrow> nat"
  random_draw :: "nat \<Rightarrow> rat"
  choice_defaulter :: "nat \<Rightarrow> bool"
  run_issue_token :: "nat \<Rightarrow> proc"
  run_query :: "nat \<Rightarrow> proc"
  str_strip :: "string \<Rightarrow> string"
  int_parse :: "string \<Rightarrow> int option"

text \<open>The environment of a whole run of test.py: the initial draws
  \<^verbatim>\<open>random.randint(40, 60)\<close> and one round environment per round number.\<close>

record world =
  randint_init :: "nat \<Rightarrow> int"
  round_envs :: "nat \<Rightarrow> round_env"

section \<open>Constants\<close>

definition USER_COUNT :: nat where
  "USER_COUNT = 100"

definition ROUND_COUNT :: nat where
  "ROUND_COUNT = 4"

text \<open>
  \<^verbatim>\<open>DEFAULT_PROB = 0.05\<close> and the draws of \<^verbatim>\<open>random.random()\<close> are floats;
  the script only compares a draw with the constant, so both are kept as rationals.
\<close>

definition DEFAULT_PROB :: rat where
  "DEFAULT_PROB = 5 / 100"

definition REPUTATION_THRESHOLD :: int where
  "REPUTATION_THRESHOLD = 20"

section \<open>Formatting\<close>

definition digit_char :: "nat \<Rightarrow> char" where
  "digit_char d = ''0123456789'' ! d"

fun str_nat :: "nat \<Rightarrow> string" where
  "str_nat n = (if n < 10 then [digit_char n] else str_nat (n div 10) @ [digit_char (n mod 10)])"

declare str_nat.simps [simp del]

definition str_int :: "int \<Rightarrow> string" where
  "str_int i = (if i < 0 then CHR ''-'' # str_nat (nat (- i)) else str_nat (nat i))"

definition side_name :: "side \<Rightarrow> string" where
  "side_name s = (case s of BUY \<Rightarrow> ''BUY'' | SELL \<Rightarrow> ''SELL'')"

text \<open>\<^verbatim>\<open>users = [f"user{uid}" for uid in range(1, USER_COUNT+1)]\<close>\<close>

definition users :: "user list" where
  "users = map (\<lambda>uid. ''user'' @ str_nat uid) [1..<USER_COUNT + 1]"

text \<open>\<^verbatim>\<open>order_id = f"ORD{rnd}_{user}"\<close>\<close>

definition make_order_id :: "nat \<Rightarrow> user \<Rightarrow> string" where
  "make_order_id rnd u = ''ORD'' @ str_nat rnd @ ''_'' @ u"

section \<open>random.shuffle\<close>

text \<open>
  The standard library's in-place shuffle:
  \<^verbatim>\<open>for i in reversed(range(1, len(x))): j = randbelow(i + 1); x[i], x[j] = x[j], x[i]\<close>.
  \<open>draw i\<close> is the value drawn at index \<open>i\<close>; reducing it modulo \<open>i + 1\<close> keeps
  it in the range \<^verbatim>\<open>randbelow(i + 1)\<close> returns, for every draw function.
\<close>

fun shuffle_loop :: "(nat \<Rightarrow> nat) \<Rightarrow> nat \<Rightarrow> 'a list \<Rightarrow> 'a list" where
  "shuffle_loop draw 0 x = x"
| "shuffle_loop draw (Suc n) x =
     (let i = Suc n; j = draw i mod (i + 1)
      in shuffle_loop draw n (x[i := x ! j, j := x ! i]))"

definition shuffle :: "(nat \<Rightarrow> nat) \<Rightarrow> 'a list \<Rightarrow> 'a list" where
  "shuffle draw x = shuffle_loop draw (length x - 1) x"

section \<open>One round of test.py\<close>

subsection \<open>Step 1: order generation (lines 38-67)\<close>

definition create_order_args :: "round_env \<Rightarrow> nat \<Rightarrow> string \<Rightarrow> user \<Rightarrow> side \<Rightarrow> string list" where
  "create_order_args env k oid u t =
     [''CreateOrder'', oid, u, str_int (randint_energy env k), str_int (randint_price env k),
      side_name t]"

definition order_step ::
  "round_env \<Rightarrow> nat \<Rightarrow> (user \<rightharpoonup> int) \<Rightarrow> nat \<Rightarrow> user \<Rightarrow> order list \<times> event list
     \<Rightarrow> error + order list \<times> event list" where
  "order_step env rnd rep k u acc =
     (case rep u of
        None \<Rightarrow> Inl (KeyError u)
      | Some r \<Rightarrow>
          if r \<ge> REPUTATION_THRESHOLD then
            let t = choice_side env k;
                oid = make_order_id rnd u;
                orders' = fst acc @ [\<lparr>order_id = oid, user = u, order_type = t\<rparr>];
                result = run_create_order env k;
                ev = Invoke (create_order_args env k oid u t)
                       # (if returncode result \<noteq> 0
                          then [Print (CreateOrderFailed oid (stderr result))] else [])
            in Inr (orders', snd acc @ ev)
          else Inr acc)"

text \<open>\<^verbatim>\<open>for user in users: ...\<close>; \<open>k\<close> counts the iterations.\<close>

fun place_orders ::
  "round_env \<Rightarrow> nat \<Rightarrow> (user \<rightharpoonup> int) \<Rightarrow> nat \<Rightarrow> user list \<Rightarrow> order list \<times> event list
     \<Rightarrow> error + order list \<times> event list" where
  "place_orders env rnd rep k [] acc = Inr acc"
| "place_orders env rnd rep k (u # us) acc =
     (case order_step env rnd rep k u acc of
        Inl e \<Rightarrow> Inl e
      | Inr acc' \<Rightarrow> place_orders env rnd rep (Suc k) us acc')"

subsection \<open>Step 3: settlement of the matched pairs (lines 83-140)\<close>

text \<open>The loop state: the global state and the two counters of the round.\<close>

type_synonym trade_state = "state \<times> nat \<times> nat"

definition trade_step ::
  "round_env \<Rightarrow> nat \<Rightarrow> order list \<Rightarrow> order list \<Rightarrow> nat \<Rightarrow> trade_state \<Rightarrow> error + trade_state" where
  "trade_step env rnd buy_orders sell_orders i s =
     (let st = fst s; success_count = fst (snd s); default_count = snd (snd s);
          buyer_order = buy_orders ! i;
          seller_order = sell_orders ! i;
          buyer = user buyer_order;
          seller = user seller_order;
          result = run_issue_token env i
      in if random_draw env i < DEFAULT_PROB then
           let defaulter = (if choice_defaulter env i then buyer else seller);
               ev = Invoke [''IssueToken'', order_id buyer_order, order_id seller_order,
                            ''DEFAULT'', defaulter]
                      # (if returncode result \<noteq> 0
                         then [Print (IssueTokenDefaultFailed (order_id buyer_order)
                                       (order_id seller_order) (stderr result))] else [])
           in case reputation st defaulter of
                None \<Rightarrow> Inl (KeyError defaulter)
              | Some r \<Rightarrow>
                  Inr (st\<lparr>reputation := ((reputation st)(defaulter \<mapsto> r - 5)),
                          default_records := default_records st @ [(rnd, defaulter)],
                          out := out st @ ev\<rparr>,
                       success_count, default_count + 1)
         else
           let ev = Invoke [''IssueToken'', order_id buyer_order, order_id seller_order,
                            ''SUCCESS'', '''']
                      # (if returncode result \<noteq> 0
                         then [Print (IssueTokenSuccessFailed (order_id buyer_order)
                                       (order_id seller_order) (stderr result))] else [])
           in case reputation st buyer of
                None \<Rightarrow> Inl (KeyError buyer)
              | Some rb \<Rightarrow>
                  let rep1 = (reputation st)(buyer \<mapsto> rb + 1)
                  in (case rep1 seller of
                        None \<Rightarrow> Inl (KeyError seller)
                      | Some rs \<Rightarrow>
                          Inr (st\<lparr>reputation := (rep1(seller \<mapsto> rs + 1)),
                                  out := out st @ ev\<rparr>,
                               success_count + 1, default_count)))"

fun trade_loop ::
  "round_env \<Rightarrow> nat \<Rightarrow> order list \<Rightarrow> order list \<Rightarrow> nat list \<Rightarrow> trade_state \<Rightarrow> error + trade_state" where
  "trade_loop env rnd buy_orders sell_orders [] s = Inr s"
| "trade_loop env rnd buy_orders sell_orders (i # is) s =
     (case trade_step env rnd buy_orders sell_orders i s of
        Inl e \<Rightarrow> Inl e
      | Inr s' \<Rightarrow> trade_loop env rnd buy_orders sell_orders is s')"

subsection \<open>Step 4: reputation query (lines 144-159)\<close>

definition query_step :: "round_env \<Rightarrow> nat \<Rightarrow> nat \<Rightarrow> user \<Rightarrow> state \<Rightarrow> error + state" where
  "query_step env rnd k u st =
     (let result = run_query env k;
          st1 = st\<lparr>out := out st @ [Query [''QueryReputation'', u]]\<rparr>
      in if returncode result = 0 then
           let txt = str_strip env (stdout result);
               rep_value = (case int_parse env txt of Some n \<Rightarrow> IntValue n | None \<Rightarrow> StrValue txt)
           in Inr (st1\<lparr>rep_history := rep_history st1 @ [(rnd, u, rep_value)]\<rparr>)
         else
           (case reputation st u of
              None \<Rightarrow> Inl (KeyError u)
            | Some r \<Rightarrow> Inr (st1\<lparr>rep_history := rep_history st1 @ [(rnd, u, IntValue r)]\<rparr>)))"

fun query_loop :: "round_env \<Rightarrow> nat \<Rightarrow> nat \<Rightarrow> user list \<Rightarrow> state \<Rightarrow> error + state" where
  "query_loop env rnd k [] st = Inr st"
| "query_loop env rnd k (u # us) st =
     (case query_step env rnd k u st of
        Inl e \<Rightarrow> Inl e
      | Inr st' \<Rightarrow> query_loop env rnd (Suc k) us st')"

subsection \<open>Step 2: matching (lines 72-77)\<close>

text \<open>The two list comprehensions over \<^verbatim>\<open>orders\<close>.\<close>

definition buys_of :: "order list \<Rightarrow> order list" where
  "buys_of orders = filter (\<lambda>x. order_type x = BUY) orders"

definition sells_of :: "order list \<Rightarrow> order list" where
  "sells_of orders = filter (\<lambda>x. order_type x = SELL) orders"

text \<open>The two lists after \<^verbatim>\<open>random.shuffle\<close>, and \<^verbatim>\<open>match_count\<close>.\<close>

definition match_orders :: "round_env \<Rightarrow> order list \<Rightarrow> order list \<times> order list \<times> nat" where
  "match_orders env orders =
     (let buy_orders = shuffle (randbelow_buy env) (buys_of orders);
          sell_orders = shuffle (randbelow_sell env) (sells_of orders);
          match_count = min (length buy_orders) (length sell_orders)
      in (buy_orders, sell_orders, match_count))"

subsection \<open>The round (lines 35-170)\<close>

definition round_body :: "round_env \<Rightarrow> nat \<Rightarrow> user list \<Rightarrow> state \<Rightarrow> error + state" where
  "round_body env rnd us st =
     (let st0 = st\<lparr>out := out st @ [Print (RoundHeader rnd)]\<rparr>
      in case place_orders env rnd (reputation st0) 0 us ([], out st0) of
           Inl e \<Rightarrow> Inl e
         | Inr (orders, o1) \<Rightarrow>
             let excluded = int USER_COUNT - int (length orders);
                 buy_orders = fst (match_orders env orders);
                 sell_orders = fst (snd (match_orders env orders));
                 match_count = snd (snd (match_orders env orders));
                 st1 = st0\<lparr>out := o1 @ [Print (OrdersPlaced (length orders) excluded),
                                         Print (OrdersMatched match_count)]\<rparr>
             in (case trade_loop env rnd buy_orders sell_orders [0..<match_count] (st1, 0, 0) of
                  Inl e \<Rightarrow> Inl e
                | Inr (st2, success_count, default_count) \<Rightarrow>
                    (case query_loop env rnd 0 us st2 of
                       Inl e \<Rightarrow> Inl e
                     | Inr st3 \<Rightarrow>
                         Inr (st3\<lparr>round_stats := (round_stats st3 @
                                    [\<lparr>stat_round = rnd, stat_orders = length orders,
                                      stat_matched = match_count, stat_success = success_count,
                                      stat_defaults = default_count,
                                      stat_excluded_users = excluded\<rparr>]),
                                  out := (out st3 @
                                    [Print (RoundComplete rnd success_count default_count)])\<rparr>))))"

section \<open>The whole run of test.py\<close>

fun rounds :: "(nat \<Rightarrow> round_env) \<Rightarrow> user list \<Rightarrow> nat list \<Rightarrow> state \<Rightarrow> error + state" where
  "rounds envs us [] st = Inr st"
| "rounds envs us (rnd # rs) st =
     (case round_body (envs rnd) rnd us st of
        Inl e \<Rightarrow> Inl e
      | Inr st' \<Rightarrow> rounds envs us rs st')"

text \<open>\<^verbatim>\<open>reputation = {user: random.randint(40, 60) for user in users}\<close>: a later
  occurrence of a key overwrites an earlier one.\<close>

fun init_reputation :: "(nat \<Rightarrow> int) \<Rightarrow> nat \<Rightarrow> user list \<Rightarrow> (user \<rightharpoonup> int) \<Rightarrow> (user \<rightharpoonup> int)" where
  "init_reputation draw k [] m = m"
| "init_reputation draw k (u # us) m = init_reputation draw (Suc k) us (m(u \<mapsto> draw k))"

definition init_state :: "world \<Rightarrow> user list \<Rightarrow> state" where
  "init_state w us =
     \<lparr>reputation = init_reputation (randint_init w) 0 us Map.empty,
      rep_history = [], default_records = [], round_stats = [],
      out = [Print (Initialized USER_COUNT)]\<rparr>"

definition simulate :: "world \<Rightarrow> user list \<Rightarrow> nat \<Rightarrow> error + state" where
  "simulate w us n = rounds (round_envs w) us [1..<n + 1] (init_state w us)"

text \<open>
  The script from its first line to its line 179 (\<^verbatim>\<open>Simulation completed\<close>). Of
  the data frames, files and charts of lines 172-222 only the success rate is modelled
  (below). Those lines can raise on states the rounds produce (a textual reputation
  value at line 183, an empty list of default records at line 208): a result
  \<open>Inr st\<close> says that the rounds completed with state \<open>st\<close>, not that the script
  ran to its last line.
\<close>

definition test_py :: "world \<Rightarrow> error + state" where
  "test_py w =
     (case simulate w users ROUND_COUNT of
        Inl e \<Rightarrow> Inl e
      | Inr st \<Rightarrow> Inr (st\<lparr>out := out st @ [Print SimulationCompleted]\<rparr>))"

section \<open>The success-rate chart of test.py (lines 194-196)\<close>

text \<open>
  \<^verbatim>\<open>success_rate = df_round["success"] / df_round["matched"] * 100\<close> divides two
  integer columns element by element. The quotient of a row is a number, or, when the
  divisor is zero, not-a-number (dividend zero) or infinity. Rounding is left out: a
  number is kept as an exact rational. The files and the other charts the script writes
  after the rounds are not part of the model.
\<close>

datatype pyfloat = Num rat | NaN | PosInf

definition series_div :: "nat \<Rightarrow> nat \<Rightarrow> pyfloat" where
  "series_div a b = (if b = 0 then (if a = 0 then NaN else PosInf) else Num (of_nat a / of_nat b))"

definition float_times :: "pyfloat \<Rightarrow> rat \<Rightarrow> pyfloat" where
  "float_times x c = (case x of Num q \<Rightarrow> Num (q * c) | NaN \<Rightarrow> NaN | PosInf \<Rightarrow> PosInf)"

definition success_rate :: "round_stat list \<Rightarrow> pyfloat list" where
  "success_rate df_round =
     map (\<lambda>row. float_times (series_div (stat_success row) (stat_matched row)) 100) df_round"

section \<open>init\_users.py\<close>

text \<open>
  The script draws its own reputations, generates a key pair for each user (the PEM text
  of the public key is an input of the model) and registers the user on the ledger.
\<close>

record init_env =
  randint_rep :: "nat \<Rightarrow> int"
  public_key_pem :: "nat \<Rightarrow> string"
  run_create_participant :: "nat \<Rightarrow> proc"
  strip_text :: "string \<Rightarrow> string"

definition initial_balance :: int where
  "initial_balance = 1000"

definition register_step ::
  "init_env \<Rightarrow> (user \<rightharpoonup> int) \<Rightarrow> nat \<Rightarrow> user \<Rightarrow> event list \<Rightarrow> error + event list" where
  "register_step env rep k u tr =
     (case rep u of
        None \<Rightarrow> Inl (KeyError u)
      | Some r \<Rightarrow>
          let args = [''CreateParticipant'', u, str_int r, str_int initial_balance,
                      public_key_pem env k];
              result = run_create_participant env k
          in Inr (tr @ [Invoke args,
                        if returncode result \<noteq> 0
                        then Print (CreateParticipantFailed u (strip_text env (stderr result)))
                        else Print (Registered u r initial_balance)]))"

fun register_users ::
  "init_env \<Rightarrow> (user \<rightharpoonup> int) \<Rightarrow> nat \<Rightarrow> user list \<Rightarrow> event list \<Rightarrow> error + event list" where
  "register_users env rep k [] tr = Inr tr"
| "register_users env rep k (u # us) tr =
     (case register_step env rep k u tr of
        Inl e \<Rightarrow> Inl e
      | Inr tr' \<Rightarrow> register_users env rep (Suc k) us tr')"

definition init_users_py :: "init_env \<Rightarrow> error + event list" where
  "init_users_py env =
     register_users env (init_reputation (randint_rep env) 0 users Map.empty) 0 users []"

section \<open>Auxiliary notions for the statements\<close>

text \<open>A participant is eligible when its local reputation reaches the threshold.\<close>

definition eligible :: "(user \<rightharpoonup> int) \<Rightarrow> user \<Rightarrow> bool" where
  "eligible rep u = (case rep u of None \<Rightarrow> False | Some r \<Rightarrow> r \<ge> REPUTATION_THRESHOLD)"

text \<open>The chaincode commands of an event list, in order.\<close>

fun invocations :: "event list \<Rightarrow> string list list" where
  "invocations [] = []"
| "invocations (Invoke args # tr) = args # invocations tr"
| "invocations (e # tr) = invocations tr"

text \<open>The printed lines of an event list, in order.\<close>

fun printed :: "event list \<Rightarrow> message list" where
  "printed [] = []"
| "printed (Print m # tr) = m # printed tr"
| "printed (e # tr) = printed tr"

text \<open>The participants of the matched pairs with the given indices.\<close>

definition parties :: "order list \<Rightarrow> order list \<Rightarrow> nat list \<Rightarrow> user set" where
  "parties buy_orders sell_orders js =
     set (map (\<lambda>i. user (buy_orders ! i)) js) \<union> set (map (\<lambda>i. user (sell_orders ! i)) js)"

subsection \<open>The matching algorithm as the specification words it\<close>

text \<open>
  Split the orders into buy and sell orders, shuffle the two lists independently, pair
  them positionally up to the length of the shorter list (\<open>zip\<close> stops there), and
  decide default for pair \<open>i\<close> by one draw: default iff the draw is below the
  default probability. A settlement names the two order identifiers, the outcome and the
  defaulting party, if any.
\<close>

definition spec_pairs :: "round_env \<Rightarrow> order list \<Rightarrow> (order \<times> order) list" where
  "spec_pairs env orders =
     zip (shuffle (randbelow_buy env) (filter (\<lambda>x. order_type x = BUY) orders))
         (shuffle (randbelow_sell env) (filter (\<lambda>x. order_type x = SELL) orders))"

definition spec_defaults :: "round_env \<Rightarrow> nat \<Rightarrow> bool" where
  "spec_defaults env i = (random_draw env i < DEFAULT_PROB)"

definition spec_settlement :: "round_env \<Rightarrow> nat \<Rightarrow> order \<times> order \<Rightarrow> string list" where
  "spec_settlement env i p =
     [''IssueToken'', order_id (fst p), order_id (snd p),
      (if spec_defaults env i then ''DEFAULT'' else ''SUCCESS''),
      (if spec_defaults env i
       then (if choice_defaulter env i then user (fst p) else user (snd p)) else '''')]"

definition spec_settlements :: "round_env \<Rightarrow> order list \<Rightarrow> string list list" where
  "spec_settlements env orders =
     map (\<lambda>(i, p). spec_settlement env i p) (enumerate 0 (spec_pairs env orders))"

section \<open>Example environments and states\<close>

definition proc_ok :: proc where
  "proc_ok = \<lparr>returncode = 0, stdout = ''50'', stderr = ''''\<rparr>"

definition proc_failed :: proc where
  "proc_failed = \<lparr>returncode = 1, stdout = '''', stderr = ''connection refused''\<rparr>"

definition demo_env :: round_env where
  "demo_env =
     \<lparr>choice_side = (\<lambda>k. if k = 0 then BUY else SELL),
      randint_energy = (\<lambda>k. 5), randint_price = (\<lambda>k. 75),
      run_create_order = (\<lambda>k. proc_ok),
      randbelow_buy = (\<lambda>i. 0), randbelow_sell = (\<lambda>i. 0),
      random_draw = (\<lambda>i. 1 / 2), choice_defaulter = (\<lambda>i. True),
      run_issue_token = (\<lambda>i. proc_ok), run_query = (\<lambda>k. proc_ok),
      str_strip = (\<lambda>s. s), int_parse = (\<lambda>s. if s = ''50'' then Some 50 else None)\<rparr>"

definition default_env :: round_env where
  "default_env = demo_env\<lparr>random_draw := (\<lambda>i. 1 / 100), choice_defaulter := (\<lambda>i. False)\<rparr>"

definition failing_env :: round_env where
  "failing_env = demo_env\<lparr>run_create_order := (\<lambda>k. proc_failed),
     run_issue_token := (\<lambda>i. proc_failed), run_query := (\<lambda>k. proc_failed)\<rparr>"

definition demo_users :: "user list" where
  "demo_users = [''user1'', ''user2'', ''user3'']"

definition demo_reputation :: "user \<rightharpoonup> int" where
  "demo_reputation = [''user1'' \<mapsto> 60, ''user2'' \<mapsto> 45, ''user3'' \<mapsto> 15]"

definition demo_state :: state where
  "demo_state = \<lparr>reputation = demo_reputation, rep_history = [], default_records = [],
     round_stats = [], out = []\<rparr>"

definition demo_orders :: "order list" where
  "demo_orders =
     [\<lparr>order_id = ''ORD1_user1'', user = ''user1'', order_type = BUY\<rparr>,
      \<lparr>order_id = ''ORD1_user2'', user = ''user2'', order_type = SELL\<rparr>]"

definition demo_order_events :: "event list" where
  "demo_order_events =
     [Print (RoundHeader 1),
      Invoke [''CreateOrder'', ''ORD1_user1'', ''user1'', ''5'', ''75'', ''BUY''],
      Invoke [''CreateOrder'', ''ORD1_user2'', ''user2'', ''5'', ''75'', ''SELL'']]"

definition demo_state_success :: state where
  "demo_state_success =
     \<lparr>reputation = demo_reputation(''user1'' \<mapsto> 61, ''user2'' \<mapsto> 46),
      rep_history = [], default_records = [], round_stats = [],
      out = [Invoke [''IssueToken'', ''ORD1_user1'', ''ORD1_user2'', ''SUCCESS'', []]]\<rparr>"

definition demo_state_default :: state where
  "demo_state_default =
     \<lparr>reputation = demo_reputation(''user2'' \<mapsto> 40),
      rep_history = [], default_records = [(1, ''user2'')], round_stats = [],
      out = [Invoke [''IssueToken'', ''ORD1_user1'', ''ORD1_user2'', ''DEFAULT'', ''user2'']]\<rparr>"

definition demo_state_round :: state where
  "demo_state_round =
     \<lparr>reputation = demo_reputation(''user1'' \<mapsto> 61, ''user2'' \<mapsto> 46),
      rep_history = [(1, ''user1'', IntValue 50), (1, ''user2'', IntValue 50),
                     (1, ''user3'', IntValue 50)],
      default_records = [],
      round_stats = [\<lparr>stat_round = 1, stat_orders = 2, stat_matched = 1, stat_success = 1,
                       stat_defaults = 0, stat_excluded_users = 98\<rparr>],
      out = [Print (RoundHeader 1),
             Invoke [''CreateOrder'', ''ORD1_user1'', ''user1'', ''5'', ''75'', ''BUY''],
             Invoke [''CreateOrder'', ''ORD1_user2'', ''user2'', ''5'', ''75'', ''SELL''],
             Print (OrdersPlaced 2 98), Print (OrdersMatched 1),
             Invoke [''IssueToken'', ''ORD1_user1'', ''ORD1_user2'', ''SUCCESS'', []],
             Query [''QueryReputation'', ''user1''],
             Query [''QueryReputation'', ''user2''],
             Query [''QueryReputation'', ''user3''],
             Print (RoundComplete 1 1 0)]\<rparr>"

definition all_buy_env :: round_env where
  "all_buy_env = demo_env\<lparr>choice_side := (\<lambda>k. BUY)\<rparr>"

definition all_buy_world :: world where
  "all_buy_world = \<lparr>randint_init = (\<lambda>k. 50), round_envs = (\<lambda>rnd. all_buy_env)\<rparr>"

definition top_world :: world where
  "top_world = \<lparr>randint_init = (\<lambda>k. 60), round_envs = (\<lambda>rnd. demo_env)\<rparr>"

definition final_reputation :: "error + state \<Rightarrow> user \<Rightarrow> int option" where
  "final_reputation res u = (case res of Inl e \<Rightarrow> None | Inr st \<Rightarrow> reputation st u)"

definition failing_init_env :: init_env where
  "failing_init_env =
     \<lparr>randint_rep = (\<lambda>k. 50), public_key_pem = (\<lambda>k. ''PEM''),
      run_create_participant = (\<lambda>k. proc_failed), strip_text = (\<lambda>s. s)\<rparr>"

definition demo_state_issue_failed :: state where
  "demo_state_issue_failed =
     \<lparr>reputation = demo_reputation(''user1'' \<mapsto> 61, ''user2'' \<mapsto> 46),
      rep_history = [], default_records = [], round_stats = [],
      out = [Invoke [''IssueToken'', ''ORD1_user1'', ''ORD1_user2'', ''SUCCESS'', []],
             Print (IssueTokenSuccessFailed ''ORD1_user1'' ''ORD1_user2''
                      ''connection refused'')]\<rparr>"

section \<open>Properties of the shuffle\<close>

lemma shuffle_loop_mset: "n < length x \<or> n = 0 \<Longrightarrow> mset (shuffle_loop draw n x) = mset x"
proof (induction n arbitrary: x)
  case 0
  show ?case by simp
next
  case (Suc n)
  let ?i = "Suc n"
  let ?j = "draw ?i mod (?i + 1)"
  from Suc.prems have i: "?i < length x" by simp
  have j: "?j < length x" using i by (simp add: less_le_trans [OF mod_less_divisor])
  have sw: "mset (x[?i := x ! ?j, ?j := x ! ?i]) = mset x"
    using mset_swap [OF j i] by simp
  have "mset (shuffle_loop draw n (x[?i := x ! ?j, ?j := x ! ?i])) = mset (x[?i := x ! ?j, ?j := x ! ?i])"
    by (rule Suc.IH) (use i in simp)
  with sw show ?case by (simp add: Let_def)
qed

lemma mset_shuffle: "mset (shuffle draw x) = mset x"
  unfolding shuffle_def by (rule shuffle_loop_mset) (cases x; simp)

lemma set_shuffle: "set (shuffle draw x) = set x"
  using mset_shuffle [of draw x] by (rule mset_eq_setD)

lemma length_shuffle: "length (shuffle draw x) = length x"
  using mset_shuffle [of draw x] by (rule mset_eq_length)

lemma distinct_map_shuffle: "distinct (map f (shuffle draw x)) = distinct (map f x)"
proof -
  have "mset (map f (shuffle draw x)) = mset (map f x)"
    by (simp add: mset_shuffle)
  then show ?thesis by (rule mset_eq_imp_distinct_iff)
qed

section \<open>Order generation\<close>

lemma order_step_users:
  "order_step env rnd rep k u acc = Inr res \<Longrightarrow>
   map user (fst res) = map user (fst acc) @ filter (eligible rep) [u]"
  by (auto simp: order_step_def eligible_def Let_def split: option.splits if_splits)

lemma order_step_total:
  "u \<in> dom rep \<Longrightarrow> \<exists>res. order_step env rnd rep k u acc = Inr res"
  by (auto simp: order_step_def Let_def split: option.splits)

lemma place_orders_users:
  "place_orders env rnd rep k us acc = Inr res \<Longrightarrow>
   map user (fst res) = map user (fst acc) @ filter (eligible rep) us"
proof (induction us arbitrary: k acc)
  case Nil
  then show ?case by simp
next
  case (Cons u us)
  from Cons.prems obtain acc' where
    s: "order_step env rnd rep k u acc = Inr acc'" and
    r: "place_orders env rnd rep (Suc k) us acc' = Inr res"
    by (auto split: sum.splits)
  from Cons.IH [OF r] order_step_users [OF s] show ?case by simp
qed

lemma place_orders_total:
  "set us \<subseteq> dom rep \<Longrightarrow> \<exists>res. place_orders env rnd rep k us acc = Inr res"
proof (induction us arbitrary: k acc)
  case Nil
  then show ?case by simp
next
  case (Cons u us)
  then have "u \<in> dom rep" by simp
  from order_step_total [OF this] obtain acc' where "order_step env rnd rep k u acc = Inr acc'"
    by blast
  moreover from Cons have "\<exists>res. place_orders env rnd rep (Suc k) us acc' = Inr res" by simp
  ultimately show ?case by simp
qed

lemma placed_users:
  assumes "place_orders env rnd rep k us ([], tr) = Inr (orders, tr')"
  shows "map user orders = filter (eligible rep) us"
  using place_orders_users [OF assms] by simp

section \<open>Matching\<close>

lemma match_orders_simps:
  "fst (match_orders env orders) = shuffle (randbelow_buy env) (buys_of orders)"
  "fst (snd (match_orders env orders)) = shuffle (randbelow_sell env) (sells_of orders)"
  "snd (snd (match_orders env orders)) = min (length (buys_of orders)) (length (sells_of orders))"
  by (simp_all add: match_orders_def Let_def length_shuffle)

lemma matched_distinct:
  assumes d: "distinct (map user orders)"
  shows "distinct (map user (fst (match_orders env orders)) @ map user (fst (snd (match_orders env orders))))"
proof -
  have inj: "inj_on user (set orders)" using d by (simp add: distinct_map)
  have b: "distinct (map user (buys_of orders))"
    unfolding buys_of_def using d by (rule distinct_map_filter)
  have s: "distinct (map user (sells_of orders))"
    unfolding sells_of_def using d by (rule distinct_map_filter)
  have "user ` set (buys_of orders) \<inter> user ` set (sells_of orders) = {}"
  proof (rule ccontr)
    assume "user ` set (buys_of orders) \<inter> user ` set (sells_of orders) \<noteq> {}"
    then obtain x y where x: "x \<in> set (buys_of orders)" and y: "y \<in> set (sells_of orders)"
      and e: "user x = user y" by auto
    from x y have m: "x \<in> set orders" "y \<in> set orders"
      and t: "order_type x = BUY" "order_type y = SELL"
      by (simp_all add: buys_of_def sells_of_def)
    from inj_onD [OF inj e m] have "x = y" .
    with t show False by simp
  qed
  with b s show ?thesis
    by (simp add: match_orders_simps distinct_map_shuffle set_shuffle)
qed

lemma matched_parties:
  "parties (fst (match_orders env orders)) (fst (snd (match_orders env orders)))
     [0..<snd (snd (match_orders env orders))] \<subseteq> user ` set orders"
proof -
  let ?B = "shuffle (randbelow_buy env) (buys_of orders)"
  let ?S = "shuffle (randbelow_sell env) (sells_of orders)"
  have "i < length ?B \<Longrightarrow> ?B ! i \<in> set orders" for i
    using nth_mem [of i ?B] by (auto simp: set_shuffle buys_of_def)
  moreover have "i < length ?S \<Longrightarrow> ?S ! i \<in> set orders" for i
    using nth_mem [of i ?S] by (auto simp: set_shuffle sells_of_def)
  ultimately show ?thesis
    by (auto simp: parties_def match_orders_simps length_shuffle)
qed

section \<open>Settlement\<close>

lemma trade_step_dom:
  "trade_step env rnd bs ss i s = Inr s' \<Longrightarrow> dom (reputation (fst s')) = dom (reputation (fst s))"
  by (auto simp: trade_step_def Let_def split: option.splits if_splits)

lemma trade_step_frame:
  "trade_step env rnd bs ss i s = Inr s' \<Longrightarrow> u \<noteq> user (bs ! i) \<Longrightarrow> u \<noteq> user (ss ! i) \<Longrightarrow>
   reputation (fst s') u = reputation (fst s) u"
  by (auto simp: trade_step_def Let_def split: option.splits if_splits)

lemma trade_step_bound:
  "trade_step env rnd bs ss i s = Inr s' \<Longrightarrow> user (bs ! i) \<noteq> user (ss ! i) \<Longrightarrow>
   reputation (fst s) u = Some r \<Longrightarrow>
   \<exists>r'. reputation (fst s') u = Some r' \<and> r - 5 \<le> r' \<and> r' \<le> r + 1"
  by (auto simp: trade_step_def Let_def split: option.splits if_splits)

lemma trade_step_total:
  "user (bs ! i) \<in> dom (reputation (fst s)) \<Longrightarrow> user (ss ! i) \<in> dom (reputation (fst s)) \<Longrightarrow>
   \<exists>s'. trade_step env rnd bs ss i s = Inr s'"
  by (auto simp: trade_step_def Let_def split: option.splits if_splits)

lemma trade_step_counts:
  "trade_step env rnd bs ss i s = Inr s' \<Longrightarrow>
   fst (snd s') + snd (snd s') = Suc (fst (snd s) + snd (snd s))"
  by (auto simp: trade_step_def Let_def split: option.splits if_splits)

lemma trade_step_fields:
  "trade_step env rnd bs ss i s = Inr s' \<Longrightarrow>
   rep_history (fst s') = rep_history (fst s) \<and> round_stats (fst s') = round_stats (fst s)"
  by (auto simp: trade_step_def Let_def split: option.splits if_splits)

lemma trade_step_default:
  "trade_step env rnd bs ss i s = Inr s' \<Longrightarrow> random_draw env i < DEFAULT_PROB \<Longrightarrow>
   \<exists>r. reputation (fst s) (if choice_defaulter env i then user (bs ! i) else user (ss ! i)) = Some r \<and>
       reputation (fst s') = (reputation (fst s))
          ((if choice_defaulter env i then user (bs ! i) else user (ss ! i)) \<mapsto> r - 5)"
  by (auto simp: trade_step_def Let_def split: option.splits if_splits)

lemma trade_step_success:
  "trade_step env rnd bs ss i s = Inr s' \<Longrightarrow> \<not> random_draw env i < DEFAULT_PROB \<Longrightarrow>
   user (bs ! i) \<noteq> user (ss ! i) \<Longrightarrow>
   \<exists>rb rs. reputation (fst s) (user (bs ! i)) = Some rb \<and> reputation (fst s) (user (ss ! i)) = Some rs \<and>
       reputation (fst s') = (reputation (fst s))(user (bs ! i) \<mapsto> rb + 1, user (ss ! i) \<mapsto> rs + 1)"
  by (auto simp: trade_step_def Let_def split: option.splits if_splits)

lemma trade_loop_Cons:
  "trade_loop env rnd bs ss (i # js) s = Inr s' \<Longrightarrow>
   \<exists>s1. trade_step env rnd bs ss i s = Inr s1 \<and> trade_loop env rnd bs ss js s1 = Inr s'"
  by (auto split: sum.splits)

lemma trade_loop_dom:
  "trade_loop env rnd bs ss js s = Inr s' \<Longrightarrow> dom (reputation (fst s')) = dom (reputation (fst s))"
proof (induction js arbitrary: s)
  case Nil
  then show ?case by simp
next
  case (Cons i js)
  from trade_loop_Cons [OF Cons.prems] obtain s1 where
    "trade_step env rnd bs ss i s = Inr s1" "trade_loop env rnd bs ss js s1 = Inr s'" by blast
  then show ?case using Cons.IH trade_step_dom by metis
qed

lemma trade_loop_fields:
  "trade_loop env rnd bs ss js s = Inr s' \<Longrightarrow>
   rep_history (fst s') = rep_history (fst s) \<and> round_stats (fst s') = round_stats (fst s)"
proof (induction js arbitrary: s)
  case Nil
  then show ?case by simp
next
  case (Cons i js)
  from trade_loop_Cons [OF Cons.prems] obtain s1 where
    "trade_step env rnd bs ss i s = Inr s1" "trade_loop env rnd bs ss js s1 = Inr s'" by blast
  then show ?case using Cons.IH trade_step_fields by metis
qed

lemma trade_loop_counts:
  "trade_loop env rnd bs ss js s = Inr s' \<Longrightarrow>
   fst (snd s') + snd (snd s') = fst (snd s) + snd (snd s) + length js"
proof (induction js arbitrary: s)
  case Nil
  then show ?case by simp
next
  case (Cons i js)
  from trade_loop_Cons [OF Cons.prems] obtain s1 where
    a: "trade_step env rnd bs ss i s = Inr s1" and b: "trade_loop env rnd bs ss js s1 = Inr s'" by blast
  from Cons.IH [OF b] trade_step_counts [OF a] show ?case by simp
qed

lemma trade_loop_frame:
  "trade_loop env rnd bs ss js s = Inr s' \<Longrightarrow> u \<notin> parties bs ss js \<Longrightarrow>
   reputation (fst s') u = reputation (fst s) u"
proof (induction js arbitrary: s)
  case Nil
  then show ?case by simp
next
  case (Cons i js)
  from trade_loop_Cons [OF Cons.prems(1)] obtain s1 where
    a: "trade_step env rnd bs ss i s = Inr s1" and b: "trade_loop env rnd bs ss js s1 = Inr s'" by blast
  from Cons.prems(2) have u: "u \<noteq> user (bs ! i)" "u \<noteq> user (ss ! i)" "u \<notin> parties bs ss js"
    by (auto simp: parties_def)
  from Cons.IH [OF b u(3)] trade_step_frame [OF a u(1,2)] show ?case by simp
qed

lemma trade_loop_total:
  "parties bs ss js \<subseteq> dom (reputation (fst s)) \<Longrightarrow> \<exists>s'. trade_loop env rnd bs ss js s = Inr s'"
proof (induction js arbitrary: s)
  case Nil
  show ?case by (rule exI [of _ s]) simp
next
  case (Cons i js)
  from Cons.prems have p: "user (bs ! i) \<in> dom (reputation (fst s))" "user (ss ! i) \<in> dom (reputation (fst s))"
    "parties bs ss js \<subseteq> dom (reputation (fst s))"
    by (auto simp: parties_def)
  from trade_step_total [OF p(1,2)] obtain s1 where a: "trade_step env rnd bs ss i s = Inr s1"
    by blast
  from p(3) trade_step_dom [OF a] have "parties bs ss js \<subseteq> dom (reputation (fst s1))" by simp
  from Cons.IH [OF this] a show ?case by simp
qed

text \<open>When no participant occurs in two positions, the loop changes each reputation at
  most once.\<close>

lemma trade_loop_bound:
  assumes "trade_loop env rnd bs ss js s = Inr s'"
    and "distinct (map user bs @ map user ss)"
    and "distinct js"
    and "\<forall>i \<in> set js. i < length bs \<and> i < length ss"
    and "reputation (fst s) u = Some r"
  shows "\<exists>r'. reputation (fst s') u = Some r' \<and> r - 5 \<le> r' \<and> r' \<le> r + 1"
  using assms
proof (induction js arbitrary: s)
  case Nil
  then show ?case by simp
next
  case (Cons i js)
  from trade_loop_Cons [OF Cons.prems(1)] obtain s1 where
    a: "trade_step env rnd bs ss i s = Inr s1" and b: "trade_loop env rnd bs ss js s1 = Inr s'" by blast
  have i: "i < length bs" "i < length ss" "i \<notin> set js" "distinct js"
    "\<forall>j \<in> set js. j < length bs \<and> j < length ss"
    using Cons.prems(3,4) by auto
  have db: "distinct (map user bs)" and ds: "distinct (map user ss)"
    and dj: "user ` set bs \<inter> user ` set ss = {}"
    using Cons.prems(2) by auto
  have ne: "user (bs ! i) \<noteq> user (ss ! i)"
    using dj i(1,2) nth_mem by blast
  show ?case
  proof (cases "u = user (bs ! i) \<or> u = user (ss ! i)")
    case True
    have "u \<notin> parties bs ss js"
    proof
      assume "u \<in> parties bs ss js"
      then obtain j where j: "j \<in> set js" and e: "u = user (bs ! j) \<or> u = user (ss ! j)"
        by (auto simp: parties_def)
      from j i have jl: "j < length bs" "j < length ss" "j \<noteq> i" by auto
      have "user (bs ! i) \<noteq> user (bs ! j)"
        using db jl(1,3) i(1) by (simp add: distinct_conv_nth)
      moreover have "user (ss ! i) \<noteq> user (ss ! j)"
        using ds jl(2,3) i(2) by (simp add: distinct_conv_nth)
      moreover have "user (bs ! i) \<noteq> user (ss ! j)" "user (bs ! j) \<noteq> user (ss ! i)"
        using dj i(1,2) jl(1,2) nth_mem by blast+
      ultimately show False using True e by auto
    qed
    from trade_loop_frame [OF b this] trade_step_bound [OF a ne Cons.prems(5)]
    show ?thesis by simp
  next
    case False
    then have "reputation (fst s1) u = Some r"
      using trade_step_frame [OF a] Cons.prems(5) by simp
    from Cons.IH [OF b Cons.prems(2) i(4,5) this] show ?thesis .
  qed
qed

section \<open>Reputation query\<close>

lemma query_step_fields:
  "query_step env rnd k u st = Inr st' \<Longrightarrow>
   reputation st' = reputation st \<and> round_stats st' = round_stats st \<and>
   default_records st' = default_records st"
  by (auto simp: query_step_def Let_def split: option.splits if_splits)

lemma query_step_total:
  "u \<in> dom (reputation st) \<Longrightarrow> \<exists>st'. query_step env rnd k u st = Inr st'"
  by (auto simp: query_step_def Let_def split: option.splits if_splits)

lemma query_loop_fields:
  "query_loop env rnd k us st = Inr st' \<Longrightarrow>
   reputation st' = reputation st \<and> round_stats st' = round_stats st \<and>
   default_records st' = default_records st"
proof (induction us arbitrary: k st)
  case Nil
  then show ?case by simp
next
  case (Cons u us)
  from Cons.prems obtain st1 where
    a: "query_step env rnd k u st = Inr st1" and b: "query_loop env rnd (Suc k) us st1 = Inr st'"
    by (auto split: sum.splits)
  from Cons.IH [OF b] query_step_fields [OF a] show ?case by simp
qed

lemma query_loop_total:
  "set us \<subseteq> dom (reputation st) \<Longrightarrow> \<exists>st'. query_loop env rnd k us st = Inr st'"
proof (induction us arbitrary: k st)
  case Nil
  then show ?case by simp
next
  case (Cons u us)
  then have "u \<in> dom (reputation st)" by simp
  from query_step_total [OF this] obtain st1 where a: "query_step env rnd k u st = Inr st1"
    by blast
  with Cons.prems query_step_fields [OF a] have "set us \<subseteq> dom (reputation st1)" by simp
  from Cons.IH [OF this] a show ?case by simp
qed

section \<open>The round\<close>

lemma round_body_Inr:
  assumes "round_body env rnd us st = Inr st'"
  obtains orders o1 st2 sc dc st3 where
    "place_orders env rnd (reputation st) 0 us ([], out st @ [Print (RoundHeader rnd)]) = Inr (orders, o1)"
    "trade_loop env rnd (fst (match_orders env orders)) (fst (snd (match_orders env orders)))
       [0..<snd (snd (match_orders env orders))]
       (st\<lparr>out := o1 @ [Print (OrdersPlaced (length orders) (int USER_COUNT - int (length orders))),
                          Print (OrdersMatched (snd (snd (match_orders env orders))))]\<rparr>, 0, 0)
     = Inr (st2, sc, dc)"
    "query_loop env rnd 0 us st2 = Inr st3"
    "st' = st3\<lparr>round_stats := round_stats st3 @
                 [\<lparr>stat_round = rnd, stat_orders = length orders,
                   stat_matched = snd (snd (match_orders env orders)), stat_success = sc,
                   stat_defaults = dc,
                   stat_excluded_users = int USER_COUNT - int (length orders)\<rparr>],
               out := out st3 @ [Print (RoundComplete rnd sc dc)]\<rparr>"
  using assms unfolding round_body_def
  by (auto simp: Let_def split: sum.splits prod.splits)

lemma round_total:
  assumes "set us \<subseteq> dom (reputation st)"
  shows "\<exists>st'. round_body env rnd us st = Inr st'"
proof -
  from place_orders_total [OF assms] obtain orders o1 where
    p: "place_orders env rnd (reputation st) 0 us ([], out st @ [Print (RoundHeader rnd)]) = Inr (orders, o1)"
    by (metis surj_pair)
  let ?B = "fst (match_orders env orders)"
  let ?S = "fst (snd (match_orders env orders))"
  let ?m = "snd (snd (match_orders env orders))"
  let ?st1 = "st\<lparr>out := o1 @ [Print (OrdersPlaced (length orders) (int USER_COUNT - int (length orders))),
                          Print (OrdersMatched ?m)]\<rparr>"
  have "user ` set orders \<subseteq> set us"
    using placed_users [OF p] by (metis filter_is_subset set_map)
  with matched_parties [of env orders] assms
  have "parties ?B ?S [0..<?m] \<subseteq> dom (reputation (fst (?st1, 0::nat, 0::nat)))" by auto
  from trade_loop_total [OF this] obtain st2 sc dc where
    t: "trade_loop env rnd ?B ?S [0..<?m] (?st1, 0, 0) = Inr (st2, sc, dc)"
    by (metis surj_pair)
  from trade_loop_dom [OF t] assms have "set us \<subseteq> dom (reputation st2)" by simp
  from query_loop_total [OF this] obtain st3 where q: "query_loop env rnd 0 us st2 = Inr st3"
    by blast
  from p t q show ?thesis
    unfolding round_body_def by (simp add: Let_def)
qed

lemma round_dom:
  assumes "round_body env rnd us st = Inr st'"
  shows "dom (reputation st') = dom (reputation st)"
proof -
  from assms obtain orders o1 st2 sc dc st3 where
    t: "trade_loop env rnd (fst (match_orders env orders)) (fst (snd (match_orders env orders)))
       [0..<snd (snd (match_orders env orders))]
       (st\<lparr>out := o1 @ [Print (OrdersPlaced (length orders) (int USER_COUNT - int (length orders))),
                          Print (OrdersMatched (snd (snd (match_orders env orders))))]\<rparr>, 0, 0)
     = Inr (st2, sc, dc)"
    and q: "query_loop env rnd 0 us st2 = Inr st3"
    and r: "reputation st' = reputation st3"
    by (rule round_body_Inr) simp
  from trade_loop_dom [OF t] query_loop_fields [OF q] r show ?thesis by simp
qed

lemma round_frame:
  assumes "round_body env rnd us st = Inr st'" and "\<not> eligible (reputation st) u"
  shows "reputation st' u = reputation st u"
proof -
  from assms(1) obtain orders o1 st2 sc dc st3 where
    p: "place_orders env rnd (reputation st) 0 us ([], out st @ [Print (RoundHeader rnd)]) = Inr (orders, o1)"
    and t: "trade_loop env rnd (fst (match_orders env orders)) (fst (snd (match_orders env orders)))
       [0..<snd (snd (match_orders env orders))]
       (st\<lparr>out := o1 @ [Print (OrdersPlaced (length orders) (int USER_COUNT - int (length orders))),
                          Print (OrdersMatched (snd (snd (match_orders env orders))))]\<rparr>, 0, 0)
     = Inr (st2, sc, dc)"
    and q: "query_loop env rnd 0 us st2 = Inr st3"
    and r: "reputation st' = reputation st3"
    by (rule round_body_Inr) simp
  have "user ` set orders = set (filter (eligible (reputation st)) us)"
    using placed_users [OF p] by (metis set_map)
  with assms(2) have "u \<notin> user ` set orders" by simp
  with matched_parties [of env orders]
  have "u \<notin> parties (fst (match_orders env orders)) (fst (snd (match_orders env orders)))
       [0..<snd (snd (match_orders env orders))]" by blast
  from trade_loop_frame [OF t this] query_loop_fields [OF q] r show ?thesis by simp
qed

lemma round_bound:
  assumes "round_body env rnd us st = Inr st'" and "distinct us" and "reputation st u = Some r"
  shows "\<exists>r'. reputation st' u = Some r' \<and> r - 5 \<le> r' \<and> r' \<le> r + 1"
proof -
  from assms(1) obtain orders o1 st2 sc dc st3 where
    p: "place_orders env rnd (reputation st) 0 us ([], out st @ [Print (RoundHeader rnd)]) = Inr (orders, o1)"
    and t: "trade_loop env rnd (fst (match_orders env orders)) (fst (snd (match_orders env orders)))
       [0..<snd (snd (match_orders env orders))]
       (st\<lparr>out := o1 @ [Print (OrdersPlaced (length orders) (int USER_COUNT - int (length orders))),
                          Print (OrdersMatched (snd (snd (match_orders env orders))))]\<rparr>, 0, 0)
     = Inr (st2, sc, dc)"
    and q: "query_loop env rnd 0 us st2 = Inr st3"
    and r: "reputation st' = reputation st3"
    by (rule round_body_Inr) simp
  have "distinct (map user orders)"
    using placed_users [OF p] assms(2) by simp
  then have d: "distinct (map user (fst (match_orders env orders)) @ map user (fst (snd (match_orders env orders))))"
    by (rule matched_distinct)
  have l: "\<forall>i \<in> set [0..<snd (snd (match_orders env orders))].
      i < length (fst (match_orders env orders)) \<and> i < length (fst (snd (match_orders env orders)))"
    by (simp add: match_orders_simps length_shuffle)
  have "\<exists>r'. reputation (fst (st2, sc, dc)) u = Some r' \<and> r - 5 \<le> r' \<and> r' \<le> r + 1"
    by (rule trade_loop_bound [OF t d _ l]) (simp_all add: assms(3))
  with query_loop_fields [OF q] r show ?thesis by simp
qed

lemma round_stats_row:
  assumes "round_body env rnd us st = Inr st'"
  shows "\<exists>orders o1 row. place_orders env rnd (reputation st) 0 us ([], out st @ [Print (RoundHeader rnd)]) = Inr (orders, o1) \<and>
     round_stats st' = round_stats st @ [row] \<and>
     stat_round row = rnd \<and> stat_orders row = length orders \<and>
     stat_matched row = min (length (buys_of orders)) (length (sells_of orders)) \<and>
     stat_success row + stat_defaults row = stat_matched row"
proof -
  from assms(1) obtain orders o1 st2 sc dc st3 where
    p: "place_orders env rnd (reputation st) 0 us ([], out st @ [Print (RoundHeader rnd)]) = Inr (orders, o1)"
    and t: "trade_loop env rnd (fst (match_orders env orders)) (fst (snd (match_orders env orders)))
       [0..<snd (snd (match_orders env orders))]
       (st\<lparr>out := o1 @ [Print (OrdersPlaced (length orders) (int USER_COUNT - int (length orders))),
                          Print (OrdersMatched (snd (snd (match_orders env orders))))]\<rparr>, 0, 0)
     = Inr (st2, sc, dc)"
    and q: "query_loop env rnd 0 us st2 = Inr st3"
    and r: "st' = st3\<lparr>round_stats := round_stats st3 @
                 [\<lparr>stat_round = rnd, stat_orders = length orders,
                   stat_matched = snd (snd (match_orders env orders)), stat_success = sc,
                   stat_defaults = dc,
                   stat_excluded_users = int USER_COUNT - int (length orders)\<rparr>],
               out := out st3 @ [Print (RoundComplete rnd sc dc)]\<rparr>"
    by (rule round_body_Inr)
  from trade_loop_counts [OF t] have c: "sc + dc = snd (snd (match_orders env orders))" by simp
  from trade_loop_fields [OF t] query_loop_fields [OF q]
  have "round_stats st3 = round_stats st" by simp
  with p r c show ?thesis
    by (simp add: match_orders_simps)
qed

section \<open>Several rounds\<close>

lemma eligible_cong: "rep' u = rep u \<Longrightarrow> eligible rep' u = eligible rep u"
  by (simp add: eligible_def)

lemma rounds_Cons:
  "rounds envs us (rnd # rs) st = Inr st' \<Longrightarrow>
   \<exists>st1. round_body (envs rnd) rnd us st = Inr st1 \<and> rounds envs us rs st1 = Inr st'"
  by (auto split: sum.splits)

lemma rounds_total:
  "set us \<subseteq> dom (reputation st) \<Longrightarrow> \<exists>st'. rounds envs us rs st = Inr st'"
proof (induction rs arbitrary: st)
  case Nil
  show ?case by simp
next
  case (Cons rnd rs)
  from round_total [OF Cons.prems] obtain st1 where
    a: "round_body (envs rnd) rnd us st = Inr st1" by blast
  from round_dom [OF a] Cons.prems have "set us \<subseteq> dom (reputation st1)" by simp
  from Cons.IH [OF this] a show ?case by simp
qed

lemma rounds_dom:
  "rounds envs us rs st = Inr st' \<Longrightarrow> dom (reputation st') = dom (reputation st)"
proof (induction rs arbitrary: st)
  case Nil
  then show ?case by simp
next
  case (Cons rnd rs)
  from rounds_Cons [OF Cons.prems] obtain st1 where
    a: "round_body (envs rnd) rnd us st = Inr st1" and b: "rounds envs us rs st1 = Inr st'" by blast
  from Cons.IH [OF b] round_dom [OF a] show ?case by simp
qed

lemma rounds_frame:
  "rounds envs us rs st = Inr st' \<Longrightarrow> \<not> eligible (reputation st) u \<Longrightarrow>
   reputation st' u = reputation st u"
proof (induction rs arbitrary: st)
  case Nil
  then show ?case by simp
next
  case (Cons rnd rs)
  from rounds_Cons [OF Cons.prems(1)] obtain st1 where
    a: "round_body (envs rnd) rnd us st = Inr st1" and b: "rounds envs us rs st1 = Inr st'" by blast
  have e: "reputation st1 u = reputation st u" by (rule round_frame [OF a Cons.prems(2)])
  with Cons.prems(2) have "\<not> eligible (reputation st1) u" by (simp add: eligible_def)
  from Cons.IH [OF b this] e show ?case by simp
qed

lemma rounds_bound:
  "rounds envs us rs st = Inr st' \<Longrightarrow> distinct us \<Longrightarrow> reputation st u = Some r \<Longrightarrow>
   \<exists>r'. reputation st' u = Some r' \<and> r - 5 * int (length rs) \<le> r' \<and> r' \<le> r + int (length rs)"
proof (induction rs arbitrary: st r)
  case Nil
  then show ?case by simp
next
  case (Cons rnd rs)
  from rounds_Cons [OF Cons.prems(1)] obtain st1 where
    a: "round_body (envs rnd) rnd us st = Inr st1" and b: "rounds envs us rs st1 = Inr st'" by blast
  from round_bound [OF a Cons.prems(2,3)] obtain r1 where
    r1: "reputation st1 u = Some r1" "r - 5 \<le> r1" "r1 \<le> r + 1" by blast
  from Cons.IH [OF b Cons.prems(2) r1(1)] obtain r' where
    "reputation st' u = Some r'" "r1 - 5 * int (length rs) \<le> r'" "r' \<le> r1 + int (length rs)"
    by blast
  with r1(2,3) show ?case by simp
qed

section \<open>The initial state\<close>

lemma init_reputation_dom: "dom (init_reputation draw k us m) = dom m \<union> set us"
  by (induction us arbitrary: k m) auto

lemma init_reputation_range:
  "(\<forall>j. k \<le> j \<and> j < k + length us \<longrightarrow> P (draw j)) \<Longrightarrow> (\<forall>u r. m u = Some r \<longrightarrow> P r) \<Longrightarrow>
   init_reputation draw k us m u = Some r \<Longrightarrow> P r"
proof (induction us arbitrary: k m)
  case Nil
  then show ?case by simp
next
  case (Cons a us)
  have 1: "\<forall>j. Suc k \<le> j \<and> j < Suc k + length us \<longrightarrow> P (draw j)"
    using Cons.prems(1) by simp
  have "P (draw k)" using Cons.prems(1) by simp
  with Cons.prems(2) have 2: "\<forall>u r. (m(a \<mapsto> draw k)) u = Some r \<longrightarrow> P r" by simp
  from Cons.prems(3) have "init_reputation draw (Suc k) us (m(a \<mapsto> draw k)) u = Some r"
    by simp
  then show ?case by (rule Cons.IH [OF 1 2])
qed

lemma distinct_users: "distinct users"
  by (simp add: users_def USER_COUNT_def str_nat.simps digit_char_def upt_rec)

lemma length_users: "length users = USER_COUNT"
  by (simp add: users_def)

lemma simulate_total: "\<exists>st. simulate w us n = Inr st"
  unfolding simulate_def
  by (rule rounds_total) (simp add: init_state_def init_reputation_dom)

lemma simulate_bound:
  assumes "simulate w us n = Inr st" and "distinct us"
    and "\<forall>k < length us. 40 \<le> randint_init w k \<and> randint_init w k \<le> 60"
    and "u \<in> set us"
  shows "\<exists>r. reputation st u = Some r \<and> 40 - 5 * int n \<le> r \<and> r \<le> 60 + int n"
proof -
  let ?rep = "init_reputation (randint_init w) 0 us Map.empty"
  from assms(4) obtain r0 where r0: "?rep u = Some r0"
    using init_reputation_dom [of "randint_init w" 0 us Map.empty] by auto
  have "40 \<le> r0 \<and> r0 \<le> 60"
    by (rule init_reputation_range [where P = "\<lambda>r. 40 \<le> r \<and> r \<le> 60", OF _ _ r0])
       (use assms(3) in simp_all)
  moreover from assms(1) have "rounds (round_envs w) us [1..<n + 1] (init_state w us) = Inr st"
    by (simp add: simulate_def)
  from rounds_bound [OF this assms(2), of u r0] r0
  obtain r where "reputation st u = Some r" "r0 - 5 * int (length [1..<n + 1]) \<le> r"
    "r \<le> r0 + int (length [1..<n + 1])"
    by (auto simp: init_state_def)
  moreover have "length [1..<n + 1] = n" by (simp only: length_upt add_diff_cancel_right')
  ultimately show ?thesis by auto
qed

section \<open>Rounds in which every order is a buy order\<close>

lemma order_step_all_buy:
  "order_step env rnd rep k u acc = Inr res \<Longrightarrow> choice_side env k = BUY \<Longrightarrow>
   sells_of (fst acc) = [] \<Longrightarrow> sells_of (fst res) = []"
  by (auto simp: order_step_def sells_of_def Let_def split: option.splits if_splits)

lemma place_orders_all_buy:
  "place_orders env rnd rep k us acc = Inr res \<Longrightarrow> \<forall>j. choice_side env j = BUY \<Longrightarrow>
   sells_of (fst acc) = [] \<Longrightarrow> sells_of (fst res) = []"
proof (induction us arbitrary: k acc)
  case Nil
  then show ?case by simp
next
  case (Cons u us)
  from Cons.prems(1) obtain acc' where
    s: "order_step env rnd rep k u acc = Inr acc'" and
    r: "place_orders env rnd rep (Suc k) us acc' = Inr res"
    by (auto split: sum.splits)
  from order_step_all_buy [OF s _ Cons.prems(3)] Cons.prems(2) have "sells_of (fst acc') = []" by simp
  from Cons.IH [OF r Cons.prems(2) this] show ?case .
qed

lemma round_all_buy:
  assumes "round_body env rnd us st = Inr st'" and "\<forall>j. choice_side env j = BUY"
  shows "map stat_matched (round_stats st') = map stat_matched (round_stats st) @ [0] \<and>
         map stat_success (round_stats st') = map stat_success (round_stats st) @ [0] \<and>
         success_rate (round_stats st') = success_rate (round_stats st) @ [NaN]"
proof -
  from round_stats_row [OF assms(1)] obtain orders o1 row where
    p: "place_orders env rnd (reputation st) 0 us ([], out st @ [Print (RoundHeader rnd)]) = Inr (orders, o1)"
    and s: "round_stats st' = round_stats st @ [row]"
    and m: "stat_matched row = min (length (buys_of orders)) (length (sells_of orders))"
    and c: "stat_success row + stat_defaults row = stat_matched row"
    by blast
  from place_orders_all_buy [OF p assms(2)] have "sells_of orders = []" by (simp add: sells_of_def)
  with m c have "stat_matched row = 0" "stat_success row = 0" by simp_all
  with s show ?thesis
    by (simp add: success_rate_def series_div_def float_times_def)
qed

lemma rounds_all_buy:
  "rounds envs us rs st = Inr st' \<Longrightarrow> \<forall>rnd j. choice_side (envs rnd) j = BUY \<Longrightarrow>
   map stat_matched (round_stats st') = map stat_matched (round_stats st) @ replicate (length rs) 0 \<and>
   map stat_success (round_stats st') = map stat_success (round_stats st) @ replicate (length rs) 0 \<and>
   success_rate (round_stats st') = success_rate (round_stats st) @ replicate (length rs) NaN"
proof (induction rs arbitrary: st)
  case Nil
  then show ?case by simp
next
  case (Cons rnd rs)
  from rounds_Cons [OF Cons.prems(1)] obtain st1 where
    a: "round_body (envs rnd) rnd us st = Inr st1" and b: "rounds envs us rs st1 = Inr st'" by blast
  from Cons.prems(2) have "\<forall>j. choice_side (envs rnd) j = BUY" by simp
  from round_all_buy [OF a this] Cons.IH [OF b Cons.prems(2)]
  show ?case by (simp add: replicate_app_Cons_same)
qed

section \<open>Matched pairs\<close>

lemma matched_pair_distinct:
  assumes "distinct (map user orders)" and "i < snd (snd (match_orders env orders))"
  shows "user (fst (match_orders env orders) ! i) \<noteq> user (fst (snd (match_orders env orders)) ! i)"
proof -
  let ?B = "fst (match_orders env orders)"
  let ?S = "fst (snd (match_orders env orders))"
  from assms(2) have i: "i < length ?B" "i < length ?S"
    by (simp_all add: match_orders_simps length_shuffle)
  from matched_distinct [OF assms(1), of env]
  have "user ` set ?B \<inter> user ` set ?S = {}" by simp
  with i nth_mem show ?thesis by blast
qed

lemma pairs_by_index:
  "map (\<lambda>i. f i (bs ! i, ss ! i)) [0..<min (length bs) (length ss)] =
   map (\<lambda>(i, p). f i p) (enumerate 0 (zip bs ss))"
  by (rule nth_equalityI) (simp_all add: nth_enumerate_eq)

section \<open>Events\<close>

lemma invocations_append: "invocations (a @ b) = invocations a @ invocations b"
  by (induction a rule: invocations.induct) simp_all

lemma printed_append: "printed (a @ b) = printed a @ printed b"
  by (induction a rule: printed.induct) simp_all

lemma trade_step_invocations:
  "trade_step env rnd bs ss i s = Inr s' \<Longrightarrow>
   invocations (out (fst s')) = invocations (out (fst s)) @ [spec_settlement env i (bs ! i, ss ! i)]"
  by (auto simp: trade_step_def Let_def invocations_append spec_settlement_def spec_defaults_def
      split: option.splits if_splits)

lemma trade_step_default_count:
  "trade_step env rnd bs ss i s = Inr s' \<Longrightarrow>
   snd (snd s') = snd (snd s) + (if spec_defaults env i then 1 else 0)"
  by (auto simp: trade_step_def Let_def spec_defaults_def split: option.splits if_splits)

lemma trade_step_default_record:
  "trade_step env rnd bs ss i s = Inr s' \<Longrightarrow> random_draw env i < DEFAULT_PROB \<Longrightarrow>
   default_records (fst s') = default_records (fst s) @
     [(rnd, if choice_defaulter env i then user (bs ! i) else user (ss ! i))] \<and>
   invocations (out (fst s')) = invocations (out (fst s)) @
     [[''IssueToken'', order_id (bs ! i), order_id (ss ! i), ''DEFAULT'',
       if choice_defaulter env i then user (bs ! i) else user (ss ! i)]]"
  by (auto simp: trade_step_def Let_def invocations_append split: option.splits if_splits)

lemma trade_loop_invocations:
  "trade_loop env rnd bs ss js s = Inr s' \<Longrightarrow>
   invocations (out (fst s')) =
     invocations (out (fst s)) @ map (\<lambda>i. spec_settlement env i (bs ! i, ss ! i)) js"
proof (induction js arbitrary: s)
  case Nil
  then show ?case by simp
next
  case (Cons i js)
  from trade_loop_Cons [OF Cons.prems] obtain s1 where
    a: "trade_step env rnd bs ss i s = Inr s1" and b: "trade_loop env rnd bs ss js s1 = Inr s'" by blast
  from Cons.IH [OF b] trade_step_invocations [OF a] show ?case by simp
qed

lemma trade_loop_default_count:
  "trade_loop env rnd bs ss js s = Inr s' \<Longrightarrow>
   snd (snd s') = snd (snd s) + length (filter (spec_defaults env) js)"
proof (induction js arbitrary: s)
  case Nil
  then show ?case by simp
next
  case (Cons i js)
  from trade_loop_Cons [OF Cons.prems] obtain s1 where
    a: "trade_step env rnd bs ss i s = Inr s1" and b: "trade_loop env rnd bs ss js s1 = Inr s'" by blast
  from Cons.IH [OF b] trade_step_default_count [OF a] show ?case by simp
qed

lemma query_step_invocations:
  "query_step env rnd k u st = Inr st' \<Longrightarrow>
   invocations (out st') = invocations (out st) \<and> printed (out st') = printed (out st)"
  by (auto simp: query_step_def Let_def invocations_append printed_append
      split: option.splits if_splits)

lemma query_loop_invocations:
  "query_loop env rnd k us st = Inr st' \<Longrightarrow>
   invocations (out st') = invocations (out st) \<and> printed (out st') = printed (out st)"
proof (induction us arbitrary: k st)
  case Nil
  then show ?case by simp
next
  case (Cons u us)
  from Cons.prems obtain st1 where
    a: "query_step env rnd k u st = Inr st1" and b: "query_loop env rnd (Suc k) us st1 = Inr st'"
    by (auto split: sum.splits)
  from Cons.IH [OF b] query_step_invocations [OF a] show ?case by simp
qed

lemma match_count_spec:
  "snd (snd (match_orders env orders)) = length (spec_pairs env orders)"
  by (simp add: match_orders_simps spec_pairs_def length_shuffle buys_of_def sells_of_def)

lemma round_matching:
  assumes "round_body env rnd us st = Inr st'"
  shows "\<exists>orders o1 row.
     place_orders env rnd (reputation st) 0 us ([], out st @ [Print (RoundHeader rnd)]) = Inr (orders, o1) \<and>
     round_stats st' = round_stats st @ [row] \<and>
     stat_matched row = length (spec_pairs env orders) \<and>
     stat_defaults row = length (filter (spec_defaults env) [0..<length (spec_pairs env orders)]) \<and>
     invocations (out st') = invocations o1 @ spec_settlements env orders"
proof -
  from assms(1) obtain orders o1 st2 sc dc st3 where
    p: "place_orders env rnd (reputation st) 0 us ([], out st @ [Print (RoundHeader rnd)]) = Inr (orders, o1)"
    and t: "trade_loop env rnd (fst (match_orders env orders)) (fst (snd (match_orders env orders)))
       [0..<snd (snd (match_orders env orders))]
       (st\<lparr>out := o1 @ [Print (OrdersPlaced (length orders) (int USER_COUNT - int (length orders))),
                          Print (OrdersMatched (snd (snd (match_orders env orders))))]\<rparr>, 0, 0)
     = Inr (st2, sc, dc)"
    and q: "query_loop env rnd 0 us st2 = Inr st3"
    and r: "st' = st3\<lparr>round_stats := round_stats st3 @
                 [\<lparr>stat_round = rnd, stat_orders = length orders,
                   stat_matched = snd (snd (match_orders env orders)), stat_success = sc,
                   stat_defaults = dc,
                   stat_excluded_users = int USER_COUNT - int (length orders)\<rparr>],
               out := out st3 @ [Print (RoundComplete rnd sc dc)]\<rparr>"
    by (rule round_body_Inr)
  let ?B = "fst (match_orders env orders)"
  let ?S = "fst (snd (match_orders env orders))"
  have m: "snd (snd (match_orders env orders)) = min (length ?B) (length ?S)"
    by (simp add: match_orders_simps length_shuffle)
  have z: "zip ?B ?S = spec_pairs env orders"
    by (simp add: match_orders_simps spec_pairs_def buys_of_def sells_of_def)
  have "invocations (out st2) = invocations o1 @
      map (\<lambda>i. spec_settlement env i (?B ! i, ?S ! i)) [0..<min (length ?B) (length ?S)]"
    using trade_loop_invocations [OF t] by (simp add: invocations_append m)
  also have "map (\<lambda>i. spec_settlement env i (?B ! i, ?S ! i)) [0..<min (length ?B) (length ?S)]
      = spec_settlements env orders"
    unfolding spec_settlements_def z [symmetric] by (rule pairs_by_index)
  finally have i2: "invocations (out st2) = invocations o1 @ spec_settlements env orders" .
  from trade_loop_default_count [OF t]
  have d: "dc = length (filter (spec_defaults env) [0..<length (spec_pairs env orders)])"
    by (simp add: match_count_spec)
  from trade_loop_fields [OF t] query_loop_fields [OF q]
  have "round_stats st3 = round_stats st" by simp
  with p r d i2 query_loop_invocations [OF q] show ?thesis
    by (simp add: match_count_spec invocations_append)
qed

section \<open>Evaluation of the examples\<close>

lemma demo_reputation_simps:
  "demo_reputation ''user1'' = Some 60" "demo_reputation ''user2'' = Some 45"
  "demo_reputation ''user3'' = Some 15"
  by (simp_all add: demo_reputation_def)

lemma demo_env_simps:
  "choice_side demo_env k = (if k = 0 then BUY else SELL)"
  "randint_energy demo_env k = 5" "randint_price demo_env k = 75"
  "run_create_order demo_env k = proc_ok"
  "randbelow_buy demo_env i = 0" "randbelow_sell demo_env i = 0"
  "random_draw demo_env i = 1 / 2" "choice_defaulter demo_env i = True"
  "run_issue_token demo_env i = proc_ok" "run_query demo_env k = proc_ok"
  "str_strip demo_env s = s" "int_parse demo_env s = (if s = ''50'' then Some 50 else None)"
  by (simp_all add: demo_env_def)

lemma default_env_simps:
  "random_draw default_env i = 1 / 100" "choice_defaulter default_env i = False"
  "run_issue_token default_env i = proc_ok"
  by (simp_all add: default_env_def demo_env_def)

lemma failing_env_simps:
  "choice_side failing_env k = (if k = 0 then BUY else SELL)"
  "randint_energy failing_env k = 5" "randint_price failing_env k = 75"
  "run_create_order failing_env k = proc_failed"
  "random_draw failing_env i = 1 / 2" "choice_defaulter failing_env i = True"
  "run_issue_token failing_env i = proc_failed" "run_query failing_env k = proc_failed"
  by (simp_all add: failing_env_def demo_env_def)

lemma proc_simps:
  "returncode proc_ok = 0" "stdout proc_ok = ''50''" "stderr proc_ok = []"
  "returncode proc_failed = 1" "stdout proc_failed = []"
  "stderr proc_failed = ''connection refused''"
  by (simp_all add: proc_ok_def proc_failed_def)

lemma demo_place_orders:
  "place_orders demo_env 1 demo_reputation 0 demo_users ([], [Print (RoundHeader 1)])
   = Inr (demo_orders, demo_order_events)"
  by (simp add: demo_users_def order_step_def demo_reputation_simps REPUTATION_THRESHOLD_def
      demo_env_simps proc_simps make_order_id_def create_order_args_def str_int_def str_nat.simps
      digit_char_def side_name_def demo_orders_def demo_order_events_def Let_def)

lemma demo_match_orders:
  "match_orders demo_env demo_orders =
     ([\<lparr>order_id = ''ORD1_user1'', user = ''user1'', order_type = BUY\<rparr>],
      [\<lparr>order_id = ''ORD1_user2'', user = ''user2'', order_type = SELL\<rparr>], 1)"
  by (simp add: match_orders_def buys_of_def sells_of_def demo_orders_def shuffle_def)

lemma demo_trade_success:
  "trade_step demo_env 1 (fst (match_orders demo_env demo_orders))
     (fst (snd (match_orders demo_env demo_orders))) 0 (demo_state, 0, 0)
   = Inr (demo_state_success, 1, 0)"
  by (simp add: demo_match_orders trade_step_def demo_env_simps DEFAULT_PROB_def demo_state_def
      demo_reputation_simps proc_simps demo_state_success_def Let_def)

lemma demo_trade_default:
  "trade_step default_env 1 (fst (match_orders demo_env demo_orders))
     (fst (snd (match_orders demo_env demo_orders))) 0 (demo_state, 0, 0)
   = Inr (demo_state_default, 0, 1)"
  by (simp add: demo_match_orders trade_step_def default_env_simps DEFAULT_PROB_def
      demo_state_def demo_reputation_simps proc_simps demo_state_default_def Let_def)

lemma demo_query_loop:
  "query_loop demo_env 1 0 demo_users st =
     Inr (st\<lparr>out := out st @ [Query [''QueryReputation'', ''user1''],
                               Query [''QueryReputation'', ''user2''],
                               Query [''QueryReputation'', ''user3'']],
             rep_history := rep_history st @ [(1, ''user1'', IntValue 50),
                (1, ''user2'', IntValue 50), (1, ''user3'', IntValue 50)]\<rparr>)"
  by (simp add: demo_users_def query_step_def demo_env_simps proc_simps Let_def)

lemma demo_round:
  "round_body demo_env 1 demo_users demo_state = Inr demo_state_round"
proof -
  have p: "place_orders demo_env 1 (reputation demo_state) 0 demo_users
      ([], out demo_state @ [Print (RoundHeader 1)]) = Inr (demo_orders, demo_order_events)"
    using demo_place_orders by (simp add: demo_state_def del: One_nat_def)
  have u: "[0..<(1::nat)] = [0]" by simp
  have l: "length demo_orders = 2" by (simp add: demo_orders_def)
  show ?thesis
    unfolding round_body_def
    by (simp del: One_nat_def
        add: demo_place_orders u l Let_def demo_match_orders demo_query_loop trade_step_def
        demo_env_simps proc_simps DEFAULT_PROB_def USER_COUNT_def demo_order_events_def
        demo_state_def demo_reputation_simps demo_state_round_def)
qed

lemma init_reputation_const:
  "init_reputation (\<lambda>k. c) k us m u = (if u \<in> set us then Some c else m u)"
  by (induction us arbitrary: k m) auto

lemma order_step_orders:
  "order_step env rnd rep k u acc = Inr res \<Longrightarrow>
   fst res = fst acc @ map (\<lambda>(j, v). \<lparr>order_id = make_order_id rnd v, user = v,
                                       order_type = choice_side env j\<rparr>)
                          (filter (\<lambda>(j, v). eligible rep v) [(k, u)])"
  by (auto simp: order_step_def eligible_def Let_def split: option.splits if_splits)

lemma place_orders_orders:
  "place_orders env rnd rep k us acc = Inr res \<Longrightarrow>
   fst res = fst acc @ map (\<lambda>(j, v). \<lparr>order_id = make_order_id rnd v, user = v,
                                       order_type = choice_side env j\<rparr>)
                          (filter (\<lambda>(j, v). eligible rep v) (enumerate k us))"
proof (induction us arbitrary: k acc)
  case Nil
  then show ?case by simp
next
  case (Cons u us)
  from Cons.prems obtain acc' where
    s: "order_step env rnd rep k u acc = Inr acc'" and
    r: "place_orders env rnd rep (Suc k) us acc' = Inr res"
    by (auto split: sum.splits)
  from Cons.IH [OF r] order_step_orders [OF s] show ?case by simp
qed

lemma users_head: "\<exists>us'. users = ''user1'' # ''user2'' # us'"
  by (simp add: users_def USER_COUNT_def str_nat.simps digit_char_def upt_rec)

lemma round_top:
  assumes "round_body demo_env rnd users st = Inr st'"
    and el: "\<forall>u \<in> set users. eligible (reputation st) u"
    and r1: "reputation st ''user1'' = Some r"
  shows "reputation st' ''user1'' = Some (r + 1)"
proof -
  let ?rep = "reputation st"
  let ?mk = "\<lambda>(j, v). \<lparr>order_id = make_order_id rnd v, user = v,
                         order_type = choice_side demo_env j\<rparr>"
  from assms(1) obtain orders o1 st2 sc dc st3 where
    p: "place_orders demo_env rnd ?rep 0 users ([], out st @ [Print (RoundHeader rnd)]) = Inr (orders, o1)"
    and t: "trade_loop demo_env rnd (fst (match_orders demo_env orders)) (fst (snd (match_orders demo_env orders)))
       [0..<snd (snd (match_orders demo_env orders))]
       (st\<lparr>out := o1 @ [Print (OrdersPlaced (length orders) (int USER_COUNT - int (length orders))),
                          Print (OrdersMatched (snd (snd (match_orders demo_env orders))))]\<rparr>, 0, 0)
     = Inr (st2, sc, dc)"
    and q: "query_loop demo_env rnd 0 users st2 = Inr st3"
    and r: "reputation st' = reputation st3"
    by (rule round_body_Inr) simp
  have all: "\<forall>x \<in> set (enumerate 0 users). (\<lambda>(j, v). eligible ?rep v) x"
    using el by (auto simp: in_set_enumerate_eq)
  from users_head obtain us' where u: "users = ''user1'' # ''user2'' # us'" by blast
  have "orders = map ?mk (filter (\<lambda>(j, v). eligible ?rep v) (enumerate 0 users))"
    using place_orders_orders [OF p] by simp
  also have "filter (\<lambda>(j, v). eligible ?rep v) (enumerate 0 users) = enumerate 0 users"
    using all by (simp only: filter_True)
  finally have o: "orders = ?mk (0, ''user1'') # ?mk (1, ''user2'') # map ?mk (enumerate 2 us')"
    by (simp add: u numeral_2_eq_2)
  have nb: "buys_of (map ?mk (enumerate 2 us')) = []"
    by (auto simp: buys_of_def filter_empty_conv in_set_enumerate_eq demo_env_simps)
  have b: "buys_of orders = [?mk (0, ''user1'')]"
    using nb by (simp add: o buys_of_def demo_env_simps)
  have s: "sells_of orders \<noteq> []"
    by (simp add: o sells_of_def demo_env_simps)
  have B: "fst (match_orders demo_env orders) = [?mk (0, ''user1'')]"
    by (simp add: match_orders_simps b shuffle_def)
  have m: "snd (snd (match_orders demo_env orders)) = 1"
    using s by (cases "sells_of orders") (simp_all add: match_orders_simps b)
  have d: "distinct (map user orders)"
    using placed_users [OF p] distinct_users by simp
  have ne: "user (fst (match_orders demo_env orders) ! 0) \<noteq> user (fst (snd (match_orders demo_env orders)) ! 0)"
    by (rule matched_pair_distinct [OF d]) (simp add: m)
  from t have "trade_loop demo_env rnd (fst (match_orders demo_env orders))
       (fst (snd (match_orders demo_env orders))) [0]
       (st\<lparr>out := o1 @ [Print (OrdersPlaced (length orders) (int USER_COUNT - int (length orders))),
                          Print (OrdersMatched (snd (snd (match_orders demo_env orders))))]\<rparr>, 0, 0)
     = Inr (st2, sc, dc)"
    by (simp add: m)
  then have ts: "trade_step demo_env rnd (fst (match_orders demo_env orders))
       (fst (snd (match_orders demo_env orders))) 0
       (st\<lparr>out := o1 @ [Print (OrdersPlaced (length orders) (int USER_COUNT - int (length orders))),
                          Print (OrdersMatched (snd (snd (match_orders demo_env orders))))]\<rparr>, 0, 0)
     = Inr (st2, sc, dc)"
    by (auto split: sum.splits)
  have "\<not> random_draw demo_env 0 < DEFAULT_PROB"
    by (simp add: demo_env_simps DEFAULT_PROB_def)
  from trade_step_success [OF ts this ne] obtain rb rs where
    rb: "?rep (user (fst (match_orders demo_env orders) ! 0)) = Some rb"
    and r2: "reputation st2 = ?rep(user (fst (match_orders demo_env orders) ! 0) \<mapsto> rb + 1,
         user (fst (snd (match_orders demo_env orders)) ! 0) \<mapsto> rs + 1)"
    by auto
  have u1: "user (fst (match_orders demo_env orders) ! 0) = ''user1''" by (simp add: B)
  from rb r1 have "rb = r" by (simp only: u1 option.inject)
  with r2 ne have "reputation st2 ''user1'' = Some (r + 1)" by (simp add: u1)
  with query_loop_fields [OF q] r show ?thesis by simp
qed

lemma rounds_top:
  "rounds (\<lambda>rnd. demo_env) users rs st = Inr st' \<Longrightarrow>
   \<forall>u \<in> set users. \<exists>r. reputation st u = Some r \<and> 15 + 5 * int (length rs) \<le> r \<Longrightarrow>
   reputation st ''user1'' = Some r1 \<Longrightarrow>
   reputation st' ''user1'' = Some (r1 + int (length rs))"
proof (induction rs arbitrary: st r1)
  case Nil
  then show ?case by simp
next
  case (Cons rnd rs)
  from rounds_Cons [OF Cons.prems(1)] obtain st1 where
    a: "round_body demo_env rnd users st = Inr st1"
    and b: "rounds (\<lambda>rnd. demo_env) users rs st1 = Inr st'" by blast
  have el: "\<forall>u \<in> set users. eligible (reputation st) u"
    using Cons.prems(2) by (auto simp: eligible_def REPUTATION_THRESHOLD_def)
  have top: "reputation st1 ''user1'' = Some (r1 + 1)"
    by (rule round_top [OF a el Cons.prems(3)])
  have inv: "\<forall>u \<in> set users. \<exists>r. reputation st1 u = Some r \<and> 15 + 5 * int (length rs) \<le> r"
  proof
    fix u assume "u \<in> set users"
    with Cons.prems(2) obtain r where r: "reputation st u = Some r" "15 + 5 * int (length (rnd # rs)) \<le> r"
      by blast
    from round_bound [OF a distinct_users r(1)] obtain r' where
      "reputation st1 u = Some r'" "r - 5 \<le> r'" by blast
    with r(2) show "\<exists>r. reputation st1 u = Some r \<and> 15 + 5 * int (length rs) \<le> r" by simp
  qed
  from Cons.IH [OF b inv top] show ?case by simp
qed

lemma demo_trade_issue_failed:
  "trade_step failing_env 1 (fst (match_orders demo_env demo_orders))
     (fst (snd (match_orders demo_env demo_orders))) 0 (demo_state, 0, 0)
   = Inr (demo_state_issue_failed, 1, 0)"
  by (simp add: demo_match_orders trade_step_def failing_env_simps DEFAULT_PROB_def demo_state_def
      demo_reputation_simps proc_simps demo_state_issue_failed_def Let_def)

section \<open>Failing external calls\<close>

text \<open>
  No return code stops a loop: the rounds (\<open>simulate_total\<close>) and the registration
  loop of init\_users.py return for every environment. What each call site does when
  its call fails is stated for every environment by the four lemmas after them.
\<close>

lemma register_step_total:
  "u \<in> dom rep \<Longrightarrow> \<exists>tr'. register_step env rep k u tr = Inr tr'"
  by (auto simp: register_step_def Let_def)

lemma register_users_total:
  "set us \<subseteq> dom rep \<Longrightarrow> \<exists>tr'. register_users env rep k us tr = Inr tr'"
proof (induction us arbitrary: k tr)
  case Nil
  show ?case by simp
next
  case (Cons u us)
  then have "u \<in> dom rep" by simp
  from register_step_total [OF this] obtain tr1 where
    "register_step env rep k u tr = Inr tr1" by blast
  moreover from Cons have "\<exists>tr'. register_users env rep (Suc k) us tr1 = Inr tr'" by simp
  ultimately show ?case by simp
qed

lemma init_users_py_total: "\<exists>tr. init_users_py env = Inr tr"
  unfolding init_users_py_def
  by (rule register_users_total) (simp add: init_reputation_dom)

lemma order_step_failure_printed:
  assumes "rep u = Some r" and "r \<ge> REPUTATION_THRESHOLD"
    and "returncode (run_create_order env k) \<noteq> 0"
  shows "\<exists>orders' tr'. order_step env rnd rep k u acc = Inr (orders', tr') \<and>
      printed tr' = printed (snd acc) @
        [CreateOrderFailed (make_order_id rnd u) (stderr (run_create_order env k))]"
  using assms by (simp add: order_step_def Let_def printed_append)

lemma trade_step_failure_printed:
  assumes "trade_step env rnd bs ss i s = Inr s'"
    and "returncode (run_issue_token env i) \<noteq> 0"
  shows "printed (out (fst s')) = printed (out (fst s)) @
      [if random_draw env i < DEFAULT_PROB
       then IssueTokenDefaultFailed (order_id (bs ! i)) (order_id (ss ! i))
              (stderr (run_issue_token env i))
       else IssueTokenSuccessFailed (order_id (bs ! i)) (order_id (ss ! i))
              (stderr (run_issue_token env i))]"
  using assms
  by (auto simp: trade_step_def Let_def printed_append split: option.splits if_splits)

lemma query_step_failure_silent:
  assumes "reputation st u = Some r" and "returncode (run_query env k) \<noteq> 0"
  shows "\<exists>st'. query_step env rnd k u st = Inr st' \<and>
      rep_history st' = rep_history st @ [(rnd, u, IntValue r)] \<and>
      printed (out st') = printed (out st) \<and>
      out st' = out st @ [Query [''QueryReputation'', u]]"
  using assms by (simp add: query_step_def Let_def printed_append)

lemma register_step_failure_printed:
  assumes "rep u = Some r" and "returncode (run_create_participant env k) \<noteq> 0"
  shows "\<exists>tr'. register_step env rep k u tr = Inr tr' \<and>
      printed tr' = printed tr @
        [CreateParticipantFailed u (strip_text env (stderr (run_create_participant env k)))]"
  using assms by (simp add: register_step_def Let_def printed_append)

section \<open>The properties the specification states\<close>

lemma placed_once:
  assumes "distinct us" and "place_orders env rnd rep 0 us ([], tr) = Inr (orders, tr')"
  shows "length (filter (\<lambda>x. user x = u) orders) = (if u \<in> set us \<and> eligible rep u then 1 else 0)"
proof -
  have "length (filter (\<lambda>x. user x = u) orders) = length (filter (\<lambda>v. v = u) (map user orders))"
    by (simp add: filter_map comp_def)
  also have "\<dots> = length (filter (\<lambda>v. v = u) (filter (eligible rep) us))"
    using placed_users [OF assms(2)] by simp
  also have "\<dots> = card ({v. v = u} \<inter> set (filter (eligible rep) us))"
    by (rule distinct_length_filter) (use assms(1) in simp)
  also have "{v. v = u} \<inter> set (filter (eligible rep) us)
      = (if u \<in> set us \<and> eligible rep u then {u} else {})"
    by auto
  finally show ?thesis by simp
qed

text \<open>
  C2. A participant whose local reputation at the start of the round is below
  \<open>REPUTATION_THRESHOLD\<close> owns none of the orders that the round's order generation
  returns.
\<close>

theorem C2_ineligible_places_no_order:
  assumes "place_orders env rnd rep 0 us ([], tr) = Inr (orders, tr')"
    and "rep u = Some r" and "r < REPUTATION_THRESHOLD"
  shows "u \<notin> user ` set orders"
proof -
  from assms(2,3) have "\<not> eligible rep u" by (simp add: eligible_def)
  moreover have "user ` set orders = set (filter (eligible rep) us)"
    using placed_users [OF assms(1)] by (metis set_map)
  ultimately show ?thesis by simp
qed

theorem C2_witness:
  "place_orders demo_env 1 demo_reputation 0 demo_users ([], [Print (RoundHeader 1)])
     = Inr (demo_orders, demo_order_events)
   \<and> demo_reputation ''user3'' = Some 15 \<and> (15::int) < REPUTATION_THRESHOLD
   \<and> ''user3'' \<notin> user ` set demo_orders"
proof -
  have h1: "place_orders demo_env 1 demo_reputation 0 demo_users ([], [Print (RoundHeader 1)])
     = Inr (demo_orders, demo_order_events)" by (rule demo_place_orders)
  have h2: "demo_reputation ''user3'' = Some 15" by (simp add: demo_reputation_simps)
  have h3: "(15::int) < REPUTATION_THRESHOLD" by (simp add: REPUTATION_THRESHOLD_def)
  show ?thesis using h1 h2 h3 C2_ineligible_places_no_order [OF h1 h2 h3] by blast
qed

text \<open>
  C4. A matched trade that defaults (the draw of pair \<open>i\<close> is below \<open>DEFAULT_PROB\<close>)
  lowers the reputation of exactly one participant by 5: the chosen defaulting party,
  which is the buyer of the pair when the choice drawn for the pair is \<open>True\<close> and the
  seller otherwise, and which is the participant the settlement command and the default
  record name. Every other participant keeps its reputation.
\<close>

theorem C4_default_decrements_one:
  assumes "trade_step env rnd buy_orders sell_orders i s = Inr s'"
    and "random_draw env i < DEFAULT_PROB"
  shows "\<exists>d r. d = (if choice_defaulter env i then user (buy_orders ! i)
                     else user (sell_orders ! i)) \<and>
           (d = user (buy_orders ! i) \<or> d = user (sell_orders ! i)) \<and>
           reputation (fst s) d = Some r \<and> reputation (fst s') d = Some (r - 5) \<and>
           (\<forall>u. u \<noteq> d \<longrightarrow> reputation (fst s') u = reputation (fst s) u) \<and>
           default_records (fst s') = default_records (fst s) @ [(rnd, d)] \<and>
           invocations (out (fst s')) = invocations (out (fst s)) @
             [[''IssueToken'', order_id (buy_orders ! i), order_id (sell_orders ! i),
               ''DEFAULT'', d]]"
proof -
  let ?d = "if choice_defaulter env i then user (buy_orders ! i) else user (sell_orders ! i)"
  from trade_step_default [OF assms] obtain r where
    r: "reputation (fst s) ?d = Some r"
    and e: "reputation (fst s') = (reputation (fst s))(?d \<mapsto> r - 5)"
    by blast
  have 1: "?d = user (buy_orders ! i) \<or> ?d = user (sell_orders ! i)" by simp
  from e have 2: "reputation (fst s') ?d = Some (r - 5)" by simp
  from e have 3: "\<forall>u. u \<noteq> ?d \<longrightarrow> reputation (fst s') u = reputation (fst s) u" by simp
  from trade_step_default_record [OF assms]
  have 4: "default_records (fst s') = default_records (fst s) @ [(rnd, ?d)]"
    and 5: "invocations (out (fst s')) = invocations (out (fst s)) @
             [[''IssueToken'', order_id (buy_orders ! i), order_id (sell_orders ! i),
               ''DEFAULT'', ?d]]"
    by blast+
  show ?thesis
    by (rule exI [of _ ?d], rule exI [of _ r]) (use 1 r 2 3 4 5 in blast)
qed

theorem C4_witness:
  "trade_step default_env 1 (fst (match_orders demo_env demo_orders))
     (fst (snd (match_orders demo_env demo_orders))) 0 (demo_state, 0, 0)
     = Inr (demo_state_default, 0, 1)
   \<and> random_draw default_env 0 < DEFAULT_PROB
   \<and> (\<exists>d r. d = (if choice_defaulter default_env 0
                     then user (fst (match_orders demo_env demo_orders) ! 0)
                     else user (fst (snd (match_orders demo_env demo_orders)) ! 0)) \<and>
           (d = user (fst (match_orders demo_env demo_orders) ! 0) \<or>
            d = user (fst (snd (match_orders demo_env demo_orders)) ! 0)) \<and>
           reputation (fst (demo_state, 0::nat, 0::nat)) d = Some r \<and>
           reputation (fst (demo_state_default, 0::nat, 1::nat)) d = Some (r - 5) \<and>
           (\<forall>u. u \<noteq> d \<longrightarrow> reputation (fst (demo_state_default, 0::nat, 1::nat)) u
                              = reputation (fst (demo_state, 0::nat, 0::nat)) u) \<and>
           default_records (fst (demo_state_default, 0::nat, 1::nat))
             = default_records (fst (demo_state, 0::nat, 0::nat)) @ [(1, d)] \<and>
           invocations (out (fst (demo_state_default, 0::nat, 1::nat)))
             = invocations (out (fst (demo_state, 0::nat, 0::nat))) @
               [[''IssueToken'', order_id (fst (match_orders demo_env demo_orders) ! 0),
                 order_id (fst (snd (match_orders demo_env demo_orders)) ! 0),
                 ''DEFAULT'', d]])
   \<and> reputation demo_state ''user2'' = Some 45
   \<and> reputation demo_state_default ''user2'' = Some 40
   \<and> reputation demo_state_default ''user1'' = Some 60"
proof -
  have h1: "trade_step default_env 1 (fst (match_orders demo_env demo_orders))
     (fst (snd (match_orders demo_env demo_orders))) 0 (demo_state, 0, 0)
     = Inr (demo_state_default, 0, 1)" by (rule demo_trade_default)
  have h2: "random_draw default_env 0 < DEFAULT_PROB"
    by (simp add: default_env_simps DEFAULT_PROB_def)
  have v: "reputation demo_state ''user2'' = Some 45"
    "reputation demo_state_default ''user2'' = Some 40"
    "reputation demo_state_default ''user1'' = Some 60"
    by (simp_all add: demo_state_def demo_state_default_def demo_reputation_simps)
  show ?thesis using h1 h2 v C4_default_decrements_one [OF h1 h2] by blast
qed

text \<open>
  C5. In a round over distinct participants, a matched trade that succeeds (the draw of
  pair \<open>i\<close> is not below \<open>DEFAULT_PROB\<close>) raises the reputation of exactly two
  participants, the buyer and the seller of the pair, by 1 each; the two are different
  participants, and every other participant keeps its reputation.
\<close>

theorem C5_success_increments_two:
  assumes "distinct us"
    and "place_orders env rnd rep 0 us ([], tr) = Inr (orders, tr')"
    and "i < snd (snd (match_orders env orders))"
    and "trade_step env rnd (fst (match_orders env orders)) (fst (snd (match_orders env orders))) i s
           = Inr s'"
    and "\<not> random_draw env i < DEFAULT_PROB"
  shows "\<exists>b sl rb rs. b = user (fst (match_orders env orders) ! i) \<and>
           sl = user (fst (snd (match_orders env orders)) ! i) \<and> b \<noteq> sl \<and>
           reputation (fst s) b = Some rb \<and> reputation (fst s) sl = Some rs \<and>
           reputation (fst s') b = Some (rb + 1) \<and> reputation (fst s') sl = Some (rs + 1) \<and>
           (\<forall>u. u \<noteq> b \<and> u \<noteq> sl \<longrightarrow> reputation (fst s') u = reputation (fst s) u)"
proof -
  let ?b = "user (fst (match_orders env orders) ! i)"
  let ?sl = "user (fst (snd (match_orders env orders)) ! i)"
  have "distinct (map user orders)"
    using placed_users [OF assms(2)] assms(1) by simp
  from matched_pair_distinct [OF this assms(3)] have ne: "?b \<noteq> ?sl" .
  from trade_step_success [OF assms(4,5) ne] obtain rb rs where
    "reputation (fst s) ?b = Some rb" "reputation (fst s) ?sl = Some rs"
    "reputation (fst s') = (reputation (fst s))(?b \<mapsto> rb + 1, ?sl \<mapsto> rs + 1)"
    by blast
  with ne have "?b \<noteq> ?sl \<and>
           reputation (fst s) ?b = Some rb \<and> reputation (fst s) ?sl = Some rs \<and>
           reputation (fst s') ?b = Some (rb + 1) \<and> reputation (fst s') ?sl = Some (rs + 1) \<and>
           (\<forall>u. u \<noteq> ?b \<and> u \<noteq> ?sl \<longrightarrow> reputation (fst s') u = reputation (fst s) u)"
    by simp
  then show ?thesis by blast
qed

theorem C5_witness:
  "distinct demo_users
   \<and> place_orders demo_env 1 demo_reputation 0 demo_users ([], [Print (RoundHeader 1)])
       = Inr (demo_orders, demo_order_events)
   \<and> 0 < snd (snd (match_orders demo_env demo_orders))
   \<and> trade_step demo_env 1 (fst (match_orders demo_env demo_orders))
       (fst (snd (match_orders demo_env demo_orders))) 0 (demo_state, 0, 0)
       = Inr (demo_state_success, 1, 0)
   \<and> \<not> random_draw demo_env 0 < DEFAULT_PROB
   \<and> (\<exists>b sl rb rs. b = user (fst (match_orders demo_env demo_orders) ! 0) \<and>
           sl = user (fst (snd (match_orders demo_env demo_orders)) ! 0) \<and> b \<noteq> sl \<and>
           reputation (fst (demo_state, 0::nat, 0::nat)) b = Some rb \<and>
           reputation (fst (demo_state, 0::nat, 0::nat)) sl = Some rs \<and>
           reputation (fst (demo_state_success, 1::nat, 0::nat)) b = Some (rb + 1) \<and>
           reputation (fst (demo_state_success, 1::nat, 0::nat)) sl = Some (rs + 1) \<and>
           (\<forall>u. u \<noteq> b \<and> u \<noteq> sl \<longrightarrow> reputation (fst (demo_state_success, 1::nat, 0::nat)) u
                  = reputation (fst (demo_state, 0::nat, 0::nat)) u))"
proof -
  have h1: "distinct demo_users" by (simp add: demo_users_def)
  have h2: "place_orders demo_env 1 demo_reputation 0 demo_users ([], [Print (RoundHeader 1)])
       = Inr (demo_orders, demo_order_events)" by (rule demo_place_orders)
  have h3: "0 < snd (snd (match_orders demo_env demo_orders))" by (simp add: demo_match_orders)
  have h4: "trade_step demo_env 1 (fst (match_orders demo_env demo_orders))
       (fst (snd (match_orders demo_env demo_orders))) 0 (demo_state, 0, 0)
       = Inr (demo_state_success, 1, 0)" by (rule demo_trade_success)
  have h5: "\<not> random_draw demo_env 0 < DEFAULT_PROB"
    by (simp add: demo_env_simps DEFAULT_PROB_def)
  show ?thesis using h1 h2 h3 h4 h5 C5_success_increments_two [OF h1 h2 h3 h4 h5] by blast
qed

text \<open>
  C9. In a round over distinct participants, every eligible participant places exactly
  one order and every other participant none, and in every matched pair the buyer and
  the seller are different participants.
\<close>

theorem C9_buyer_seller_distinct:
  assumes "distinct us" and "place_orders env rnd rep 0 us ([], tr) = Inr (orders, tr')"
  shows "(\<forall>u \<in> set us. length (filter (\<lambda>x. user x = u) orders) = (if eligible rep u then 1 else 0)) \<and>
         (\<forall>i < snd (snd (match_orders env orders)).
            user (fst (match_orders env orders) ! i) \<noteq> user (fst (snd (match_orders env orders)) ! i))"
proof -
  have "distinct (map user orders)"
    using placed_users [OF assms(2)] assms(1) by simp
  then have "\<forall>i < snd (snd (match_orders env orders)).
      user (fst (match_orders env orders) ! i) \<noteq> user (fst (snd (match_orders env orders)) ! i)"
    using matched_pair_distinct by blast
  moreover have "\<forall>u \<in> set us. length (filter (\<lambda>x. user x = u) orders) = (if eligible rep u then 1 else 0)"
    using placed_once [OF assms] by simp
  ultimately show ?thesis by blast
qed

theorem C9_witness:
  "distinct demo_users
   \<and> place_orders demo_env 1 demo_reputation 0 demo_users ([], [Print (RoundHeader 1)])
       = Inr (demo_orders, demo_order_events)
   \<and> ''user1'' \<in> set demo_users \<and> (0::nat) < snd (snd (match_orders demo_env demo_orders))
   \<and> length (filter (\<lambda>x. user x = ''user1'') demo_orders)
       = (if eligible demo_reputation ''user1'' then 1 else 0)
   \<and> user (fst (match_orders demo_env demo_orders) ! 0)
       \<noteq> user (fst (snd (match_orders demo_env demo_orders)) ! 0)"
proof -
  have h1: "distinct demo_users" by (simp add: demo_users_def)
  have h2: "place_orders demo_env 1 demo_reputation 0 demo_users ([], [Print (RoundHeader 1)])
       = Inr (demo_orders, demo_order_events)" by (rule demo_place_orders)
  have h3: "''user1'' \<in> set demo_users" by (simp add: demo_users_def)
  have h4: "(0::nat) < snd (snd (match_orders demo_env demo_orders))"
    by (simp add: demo_match_orders)
  show ?thesis using h1 h2 h3 h4 C9_buyer_seller_distinct [OF h1 h2] by blast
qed

text \<open>
  C3. The number of matched trades of a round, as recorded in the round's summary row,
  equals the smaller of the numbers of buy and sell orders placed in the round (so it
  exceeds neither), and it is the number of trades settled: successes plus defaults.
\<close>

theorem C3_matched_is_min:
  assumes "round_body env rnd us st = Inr st'"
  shows "\<exists>orders o1 row.
     place_orders env rnd (reputation st) 0 us ([], out st @ [Print (RoundHeader rnd)]) = Inr (orders, o1) \<and>
     round_stats st' = round_stats st @ [row] \<and>
     stat_matched row = min (length (buys_of orders)) (length (sells_of orders)) \<and>
     stat_matched row \<le> length (buys_of orders) \<and> stat_matched row \<le> length (sells_of orders) \<and>
     stat_success row + stat_defaults row = stat_matched row"
proof -
  from round_stats_row [OF assms] obtain orders o1 row where
    "place_orders env rnd (reputation st) 0 us ([], out st @ [Print (RoundHeader rnd)]) = Inr (orders, o1)"
    "round_stats st' = round_stats st @ [row]"
    "stat_matched row = min (length (buys_of orders)) (length (sells_of orders))"
    "stat_success row + stat_defaults row = stat_matched row"
    by blast
  then show ?thesis by (intro exI [of _ orders] exI [of _ o1] exI [of _ row]) simp
qed

theorem C3_witness:
  "round_body demo_env 1 demo_users demo_state = Inr demo_state_round \<and>
   (\<exists>orders o1 row.
     place_orders demo_env 1 (reputation demo_state) 0 demo_users
       ([], out demo_state @ [Print (RoundHeader 1)]) = Inr (orders, o1) \<and>
     round_stats demo_state_round = round_stats demo_state @ [row] \<and>
     stat_matched row = min (length (buys_of orders)) (length (sells_of orders)) \<and>
     stat_matched row \<le> length (buys_of orders) \<and> stat_matched row \<le> length (sells_of orders) \<and>
     stat_success row + stat_defaults row = stat_matched row)"
  using demo_round C3_matched_is_min [OF demo_round] by blast

text \<open>
  C6. A round matches as the specification words it: the placed orders are split into
  buy and sell orders, each list is shuffled with its own draws, the two shuffled lists
  are paired position by position up to the length of the shorter one, and pair \<open>i\<close>
  defaults iff its draw is below \<open>DEFAULT_PROB\<close>. The settlement commands the round
  sends are exactly those of the specification's pairs, in order; the recorded numbers
  of matched and of defaulted trades are those of the specification.
\<close>

theorem C6_matching_refines_spec:
  assumes "round_body env rnd us st = Inr st'"
  shows "\<exists>orders o1 row.
     place_orders env rnd (reputation st) 0 us ([], out st @ [Print (RoundHeader rnd)]) = Inr (orders, o1) \<and>
     round_stats st' = round_stats st @ [row] \<and>
     stat_matched row = length (spec_pairs env orders) \<and>
     stat_defaults row = length (filter (spec_defaults env) [0..<length (spec_pairs env orders)]) \<and>
     invocations (out st') = invocations o1 @ spec_settlements env orders"
  using assms by (rule round_matching)

theorem C6_witness:
  "round_body demo_env 1 demo_users demo_state = Inr demo_state_round \<and>
   (\<exists>orders o1 row.
     place_orders demo_env 1 (reputation demo_state) 0 demo_users
       ([], out demo_state @ [Print (RoundHeader 1)]) = Inr (orders, o1) \<and>
     round_stats demo_state_round = round_stats demo_state @ [row] \<and>
     stat_matched row = length (spec_pairs demo_env orders) \<and>
     stat_defaults row
       = length (filter (spec_defaults demo_env) [0..<length (spec_pairs demo_env orders)]) \<and>
     invocations (out demo_state_round) = invocations o1 @ spec_settlements demo_env orders)"
  using demo_round C6_matching_refines_spec [OF demo_round] by blast

text \<open>
  C8. A participant whose local reputation is below \<open>REPUTATION_THRESHOLD\<close> at the
  start of a round has the same reputation after that round and after any number of
  further rounds.
\<close>

theorem C8_ineligible_never_changes:
  assumes "rounds envs us rs st = Inr st'"
    and "reputation st u = Some r" and "r < REPUTATION_THRESHOLD"
  shows "reputation st' u = Some r"
proof -
  from assms(2,3) have "\<not> eligible (reputation st) u" by (simp add: eligible_def)
  from rounds_frame [OF assms(1) this] assms(2) show ?thesis by simp
qed

theorem C8_witness:
  "rounds (\<lambda>rnd. demo_env) demo_users [1] demo_state = Inr demo_state_round \<and>
   reputation demo_state ''user3'' = Some 15 \<and> (15::int) < REPUTATION_THRESHOLD \<and>
   reputation demo_state_round ''user3'' = Some 15"
proof -
  have h1: "rounds (\<lambda>rnd. demo_env) demo_users [1] demo_state = Inr demo_state_round"
    by (simp del: One_nat_def add: demo_round)
  have h2: "reputation demo_state ''user3'' = Some 15"
    by (simp add: demo_state_def demo_reputation_simps)
  have h3: "(15::int) < REPUTATION_THRESHOLD" by (simp add: REPUTATION_THRESHOLD_def)
  show ?thesis using h1 h2 h3 C8_ineligible_never_changes [OF h1 h2 h3] by blast
qed

text \<open>
  C10. The success rate divides the success count of each round by its matched count
  without a guard. There is a run of test.py, the one in which every participant draws
  BUY in every round, whose four rounds all have matched count zero, and for which
  every success rate is not-a-number.
\<close>

theorem C10_success_rate_division_by_zero:
  "\<exists>st. test_py all_buy_world = Inr st \<and>
        map stat_matched (round_stats st) = [0, 0, 0, 0] \<and>
        map stat_success (round_stats st) = [0, 0, 0, 0] \<and>
        success_rate (round_stats st) = [NaN, NaN, NaN, NaN]"
proof -
  from simulate_total obtain st0 where s: "simulate all_buy_world users ROUND_COUNT = Inr st0"
    by blast
  have b: "\<forall>rnd j. choice_side (round_envs all_buy_world rnd) j = BUY"
    by (simp add: all_buy_world_def all_buy_env_def)
  from s have r: "rounds (round_envs all_buy_world) users [1..<ROUND_COUNT + 1]
      (init_state all_buy_world users) = Inr st0"
    by (simp add: simulate_def)
  have l: "length [1..<ROUND_COUNT + 1] = 4" by (simp add: ROUND_COUNT_def)
  from rounds_all_buy [OF r b]
  have 1: "map stat_matched (round_stats st0) = [0, 0, 0, 0]"
    and 3: "map stat_success (round_stats st0) = [0, 0, 0, 0]"
    and 2: "success_rate (round_stats st0) = [NaN, NaN, NaN, NaN]"
    unfolding l by (simp_all add: init_state_def success_rate_def numeral_eq_Suc)
  from s have "test_py all_buy_world = Inr (st0\<lparr>out := out st0 @ [Print SimulationCompleted]\<rparr>)"
    by (simp add: test_py_def)
  with 1 2 3 show ?thesis by simp
qed

text \<open>
  C1 (counterexample). In the run of test.py whose initial draws are all 60 and in
  which, in every round, user1 buys, everybody else sells and no trade defaults, user1's
  reputation at the end of the run is 64: above every initial value
  \<^verbatim>\<open>random.randint(40, 60)\<close> can give.
\<close>

theorem C1_counterexample:
  "randint_init top_world 0 = 60 \<and>
   final_reputation (test_py top_world) ''user1'' = Some 64 \<and> (60::int) < 64"
proof -
  from simulate_total obtain st where s: "simulate top_world users ROUND_COUNT = Inr st" by blast
  then have r: "rounds (\<lambda>rnd. demo_env) users [1..<ROUND_COUNT + 1] (init_state top_world users) = Inr st"
    by (simp add: simulate_def top_world_def)
  have rep: "reputation (init_state top_world users) u = (if u \<in> set users then Some 60 else None)" for u
    by (simp add: init_state_def top_world_def init_reputation_const)
  have l: "length [1..<ROUND_COUNT + 1] = 4" by (simp add: ROUND_COUNT_def)
  from users_head obtain us' where e: "users = ''user1'' # ''user2'' # us'" by blast
  have u: "''user1'' \<in> set users" unfolding e by simp
  have "reputation st ''user1'' = Some (60 + int (length [1..<ROUND_COUNT + 1]))"
    by (rule rounds_top [OF r]) (simp_all only: rep l u if_True, simp_all)
  then have "reputation st ''user1'' = Some 64" by (simp only: l) simp
  with s show ?thesis by (simp add: final_reputation_def test_py_def top_world_def)
qed

text \<open>
  C1 (amended). No upper bound on the reputation is configured or enforced. A round
  changes a participant's reputation by -5, 0 or +1, so when the initial draws lie in
  40..60, every run of \<open>n\<close> rounds over test.py's participants completes with every
  reputation between \<open>40 - 5 n\<close> and \<open>60 + n\<close>; test.py itself, with its 4 rounds,
  ends with every reputation between 20 and 64.
\<close>

theorem C1_reputation_range:
  assumes "\<forall>k < USER_COUNT. 40 \<le> randint_init w k \<and> randint_init w k \<le> 60"
  shows "(\<exists>st. simulate w users n = Inr st \<and>
            (\<forall>u \<in> set users. \<exists>r. reputation st u = Some r \<and> 40 - 5 * int n \<le> r \<and> r \<le> 60 + int n)) \<and>
         (\<exists>st. test_py w = Inr st \<and>
            (\<forall>u \<in> set users. \<exists>r. reputation st u = Some r \<and> 20 \<le> r \<and> r \<le> 64))"
proof -
  have a: "\<forall>k < length users. 40 \<le> randint_init w k \<and> randint_init w k \<le> 60"
    using assms by (simp add: length_users)
  have g: "\<exists>st. simulate w users m = Inr st \<and>
            (\<forall>u \<in> set users. \<exists>r. reputation st u = Some r \<and> 40 - 5 * int m \<le> r \<and> r \<le> 60 + int m)"
    for m
  proof -
    from simulate_total obtain st where s: "simulate w users m = Inr st" by blast
    from simulate_bound [OF s distinct_users a] s show ?thesis by blast
  qed
  from g [of ROUND_COUNT] obtain st where
    s: "simulate w users ROUND_COUNT = Inr st"
    and b: "\<forall>u \<in> set users. \<exists>r. reputation st u = Some r \<and>
          40 - 5 * int ROUND_COUNT \<le> r \<and> r \<le> 60 + int ROUND_COUNT"
    by blast
  from s have "test_py w = Inr (st\<lparr>out := out st @ [Print SimulationCompleted]\<rparr>)"
    by (simp add: test_py_def)
  moreover from b have "\<forall>u \<in> set users. \<exists>r.
      reputation (st\<lparr>out := out st @ [Print SimulationCompleted]\<rparr>) u = Some r \<and> 20 \<le> r \<and> r \<le> 64"
    by (simp add: ROUND_COUNT_def)
  ultimately have "\<exists>st. test_py w = Inr st \<and>
            (\<forall>u \<in> set users. \<exists>r. reputation st u = Some r \<and> 20 \<le> r \<and> r \<le> 64)"
    by blast
  with g [of n] show ?thesis by blast
qed

theorem C1_witness:
  "(\<forall>k. 40 \<le> randint_init top_world k \<and> randint_init top_world k \<le> 60) \<and>
   ''user1'' \<in> set users \<and>
   (\<exists>st r. simulate top_world users 1 = Inr st \<and> reputation st ''user1'' = Some r \<and>
      40 - 5 * int 1 \<le> r \<and> r \<le> 60 + int 1) \<and>
   (\<exists>st r. test_py top_world = Inr st \<and> reputation st ''user1'' = Some r \<and>
      20 \<le> r \<and> r \<le> 64)"
proof -
  have h: "\<forall>k < USER_COUNT. 40 \<le> randint_init top_world k \<and> randint_init top_world k \<le> 60"
    by (simp add: top_world_def)
  have a: "\<forall>k. 40 \<le> randint_init top_world k \<and> randint_init top_world k \<le> 60"
    by (simp add: top_world_def)
  from users_head obtain us' where e: "users = ''user1'' # ''user2'' # us'" by blast
  have u: "''user1'' \<in> set users" unfolding e by simp
  show ?thesis using a u C1_reputation_range [OF h, of 1] by blast
qed

text \<open>
  C7. A failing external call is to be logged and must not stop the simulation. The
  code does so for CreateOrder, IssueToken and CreateParticipant: each prints one line
  and goes on. A failing QueryReputation call also lets the simulation go on, and the
  value recorded for the participant is its local reputation (60 here), but nothing is
  printed. The four calls are evaluated with return code 1.
\<close>

theorem C7_query_failure_not_logged:
  "returncode (run_query failing_env 0) \<noteq> 0 \<and>
   map_sum id (printed \<circ> out) (query_step failing_env 1 0 ''user1'' demo_state) = Inr [] \<and>
   map_sum id out (query_step failing_env 1 0 ''user1'' demo_state)
     = Inr [Query [''QueryReputation'', ''user1'']] \<and>
   map_sum id rep_history (query_step failing_env 1 0 ''user1'' demo_state)
     = Inr [(1, ''user1'', IntValue 60)] \<and>
   returncode (run_create_order failing_env 0) \<noteq> 0 \<and>
   map_sum id (printed \<circ> snd) (order_step failing_env 1 demo_reputation 0 ''user1'' ([], []))
     = Inr [CreateOrderFailed ''ORD1_user1'' ''connection refused''] \<and>
   returncode (run_issue_token failing_env 0) \<noteq> 0 \<and>
   map_sum id (printed \<circ> out \<circ> fst)
     (trade_step failing_env 1 (fst (match_orders demo_env demo_orders))
        (fst (snd (match_orders demo_env demo_orders))) 0 (demo_state, 0, 0))
     = Inr [IssueTokenSuccessFailed ''ORD1_user1'' ''ORD1_user2'' ''connection refused''] \<and>
   returncode (run_create_participant failing_init_env 0) \<noteq> 0 \<and>
   map_sum id printed (register_step failing_init_env demo_reputation 0 ''user1'' [])
     = Inr [CreateParticipantFailed ''user1'' ''connection refused'']"
proof -
  have q: "query_step failing_env 1 0 ''user1'' demo_state
      = Inr (demo_state\<lparr>out := [Query [''QueryReputation'', ''user1'']],
                         rep_history := [(1, ''user1'', IntValue 60)]\<rparr>)"
    by (simp add: query_step_def failing_env_simps proc_simps demo_state_def
        demo_reputation_simps Let_def)
  have c: "order_step failing_env 1 demo_reputation 0 ''user1'' ([], [])
      = Inr ([\<lparr>order_id = ''ORD1_user1'', user = ''user1'', order_type = BUY\<rparr>],
             [Invoke [''CreateOrder'', ''ORD1_user1'', ''user1'', ''5'', ''75'', ''BUY''],
              Print (CreateOrderFailed ''ORD1_user1'' ''connection refused'')])"
    by (simp add: order_step_def demo_reputation_simps REPUTATION_THRESHOLD_def
        failing_env_simps proc_simps make_order_id_def create_order_args_def str_int_def
        str_nat.simps digit_char_def side_name_def Let_def)
  have p: "register_step failing_init_env demo_reputation 0 ''user1'' []
      = Inr [Invoke [''CreateParticipant'', ''user1'', ''60'', ''1000'', ''PEM''],
             Print (CreateParticipantFailed ''user1'' ''connection refused'')]"
    by (simp add: register_step_def demo_reputation_simps failing_init_env_def proc_simps
        initial_balance_def str_int_def str_nat.simps digit_char_def Let_def)
  have r: "returncode (run_create_participant failing_init_env 0) \<noteq> 0"
    by (simp add: failing_init_env_def proc_simps)
  show ?thesis
    by (simp del: One_nat_def
        add: q c p r demo_trade_issue_failed demo_state_issue_failed_def failing_env_simps
        proc_simps)
qed

end
